theory Spec2Isabelle
  imports Main "HOL-Library.AList"
begin

section \<open>Text\<close>

text \<open>
  The program works on Python \<open>str\<close> values: sequences of code points. A text is modelled
  as a \<open>string\<close>, whose characters are the code points 0..255. The three tables below
  are those of Python 3 on these code points: \<open>str.isspace\<close> (which is also the class
  \<open>\s\<close> of \<open>re\<close> and what \<open>str.strip\<close> removes), the class \<open>\w\<close>, and
  \<open>str.lower\<close>. Code points above 255 are outside the model.
\<close>

definition is_space :: "char \<Rightarrow> bool" where
  "is_space c = (let n = (of_char c :: nat) in
     (9 \<le> n \<and> n \<le> 13) \<or> (28 \<le> n \<and> n \<le> 32) \<or> n = 133 \<or> n = 160)"

definition is_word :: "char \<Rightarrow> bool" where
  "is_word c = (let n = (of_char c :: nat) in
     (48 \<le> n \<and> n \<le> 57) \<or> (65 \<le> n \<and> n \<le> 90) \<or> n = 95 \<or> (97 \<le> n \<and> n \<le> 122) \<or>
     n = 170 \<or> n = 178 \<or> n = 179 \<or> n = 181 \<or> n = 185 \<or> n = 186 \<or>
     (188 \<le> n \<and> n \<le> 190) \<or> (192 \<le> n \<and> n \<le> 214) \<or> (216 \<le> n \<and> n \<le> 246) \<or>
     248 \<le> n)"

definition py_lower :: "char \<Rightarrow> char" where
  "py_lower c = (let n = (of_char c :: nat) in
     if (65 \<le> n \<and> n \<le> 90) \<or> (192 \<le> n \<and> n \<le> 214) \<or> (216 \<le> n \<and> n \<le> 222)
     then char_of (n + 32) else c)"

definition lower :: "string \<Rightarrow> string" where
  "lower s = map py_lower s"

definition lstrip :: "string \<Rightarrow> string" where
  "lstrip s = dropWhile is_space s"

definition rstrip :: "string \<Rightarrow> string" where
  "rstrip s = rev (dropWhile is_space (rev s))"

definition strip :: "string \<Rightarrow> string" where
  "strip s = rstrip (lstrip s)"

text \<open>\<open>s.rstrip(chars)\<close>: the longest suffix made of the given characters is removed.\<close>

definition rstrip_chars :: "string \<Rightarrow> string \<Rightarrow> string" where
  "rstrip_chars cs s = rev (dropWhile (\<lambda>c. c \<in> set cs) (rev s))"

text \<open>\<open>s.split(sep)\<close> for a separator of one character; the result is never empty.\<close>

fun split_on :: "char \<Rightarrow> string \<Rightarrow> string list" where
  "split_on sep [] = [[]]"
| "split_on sep (c # s) =
     (if c = sep then [] # split_on sep s
      else (case split_on sep s of [] \<Rightarrow> [[c]] | w # ws \<Rightarrow> (c # w) # ws))"

fun join :: "string \<Rightarrow> string list \<Rightarrow> string" where
  "join sep [] = []"
| "join sep [w] = w"
| "join sep (w # ws) = w @ sep @ join sep ws"

definition startswith :: "string \<Rightarrow> string \<Rightarrow> bool" where
  "startswith s pre = (take (length pre) s = pre)"

text \<open>\<open>sub in s\<close> on strings.\<close>

fun contains :: "string \<Rightarrow> string \<Rightarrow> bool" where
  "contains [] sub = (sub = [])"
| "contains (c # s) sub = (startswith (c # s) sub \<or> contains s sub)"

section \<open>Regular expressions\<close>

text \<open>
  Python's \<open>re\<close> is a backtracking matcher: at a start position the alternatives of the
  pattern are tried in a fixed order (the left branch of \<open>|\<close> first, a greedy repetition
  longest first, a lazy one shortest first) and the first way to match the whole pattern
  is the match. The model computes, for a pattern and a position, the list of all ways to
  match in that order; the head of the list is the match \<open>re\<close> reports.

  A position is a cursor: the character before it (none at the start of the text) and
  the text after it. Every pattern of the program has at most one capturing group, so a
  match carries the text of group 1 only.
\<close>

datatype flag = IGNORECASE | DOTALL | MULTILINE

datatype citem = CChar char | CRange char char | CSpace | CWord

datatype regex =
    Eps
  | Lit string
  | Dot
  | Set "citem list"
  | NSet "citem list"
  | Seq regex regex
  | Alt regex regex
  | Star regex
  | LazyStar regex
  | Group regex
  | Ahead regex
  | WordB
  | EndZ
  | Dollar

type_synonym cursor = "char option \<times> string"

definition chars_between :: "char \<Rightarrow> char \<Rightarrow> char list" where
  "chars_between a b = map char_of [of_char a ..< Suc (of_char b)]"

text \<open>
  Under \<open>IGNORECASE\<close> the matcher compares lower-cased characters: a literal matches a
  character with the same lower case, a range matches a character whose lower case is
  that of a member of the range, and a category is tested on the lower-cased character.
\<close>

definition chr_match :: "flag list \<Rightarrow> char \<Rightarrow> char \<Rightarrow> bool" where
  "chr_match fl d c = (if IGNORECASE \<in> set fl then py_lower c = py_lower d else c = d)"

fun item_match :: "flag list \<Rightarrow> citem \<Rightarrow> char \<Rightarrow> bool" where
  "item_match fl (CChar d) c = chr_match fl d c"
| "item_match fl (CRange a b) c =
     (if IGNORECASE \<in> set fl then list_ex (\<lambda>d. py_lower d = py_lower c) (chars_between a b)
      else (of_char a \<le> (of_char c :: nat) \<and> (of_char c :: nat) \<le> of_char b))"
| "item_match fl CSpace c = is_space (if IGNORECASE \<in> set fl then py_lower c else c)"
| "item_match fl CWord c = is_word (if IGNORECASE \<in> set fl then py_lower c else c)"

fun lit_match :: "flag list \<Rightarrow> string \<Rightarrow> cursor \<Rightarrow> cursor option" where
  "lit_match fl [] cu = Some cu"
| "lit_match fl (d # ds) (p, []) = None"
| "lit_match fl (d # ds) (p, c # x) =
     (if chr_match fl d c then lit_match fl ds (Some c, x) else None)"

text \<open>\<open>\b\<close>: exactly one of the two neighbours of the position is a word character.\<close>

definition at_boundary :: "cursor \<Rightarrow> bool" where
  "at_boundary cu =
     ((case fst cu of None \<Rightarrow> False | Some c \<Rightarrow> is_word c) \<noteq>
      (case snd cu of [] \<Rightarrow> False | c # x \<Rightarrow> is_word c))"

text \<open>\<open>$\<close>: the end of the text or just before its last newline; under \<open>MULTILINE\<close>
  before every newline.\<close>

definition at_dollar :: "flag list \<Rightarrow> cursor \<Rightarrow> bool" where
  "at_dollar fl cu =
     (case snd cu of [] \<Rightarrow> True
      | c # x \<Rightarrow> c = CHR 0x0A \<and> (x = [] \<or> MULTILINE \<in> set fl))"

text \<open>
  \<open>rx_match fl r cu g\<close>: the ways to match \<open>r\<close> at cursor \<open>cu\<close>, in the order the
  backtracking matcher tries them, each as the cursor after the match and the text of
  group 1 (\<open>g\<close> before the match). A repetition only goes round again after an iteration
  that consumed a character, as \<open>re\<close> does; no repeated sub-pattern of the program matches
  the empty text.
\<close>

function rx_match ::
  "flag list \<Rightarrow> regex \<Rightarrow> cursor \<Rightarrow> string option \<Rightarrow> (cursor \<times> string option) list" where
  "rx_match fl Eps cu g = [(cu, g)]"
| "rx_match fl (Lit ds) cu g =
     (case lit_match fl ds cu of None \<Rightarrow> [] | Some cu' \<Rightarrow> [(cu', g)])"
| "rx_match fl Dot cu g =
     (case snd cu of [] \<Rightarrow> []
      | c # x \<Rightarrow> if DOTALL \<in> set fl \<or> c \<noteq> CHR 0x0A then [((Some c, x), g)] else [])"
| "rx_match fl (Set its) cu g =
     (case snd cu of [] \<Rightarrow> []
      | c # x \<Rightarrow> if list_ex (\<lambda>i. item_match fl i c) its then [((Some c, x), g)] else [])"
| "rx_match fl (NSet its) cu g =
     (case snd cu of [] \<Rightarrow> []
      | c # x \<Rightarrow> if list_ex (\<lambda>i. item_match fl i c) its then [] else [((Some c, x), g)])"
| "rx_match fl (Seq a b) cu g =
     concat (map (\<lambda>r. rx_match fl b (fst r) (snd r)) (rx_match fl a cu g))"
| "rx_match fl (Alt a b) cu g = rx_match fl a cu g @ rx_match fl b cu g"
| "rx_match fl (Star a) cu g =
     concat (map (\<lambda>r. if length (snd (fst r)) < length (snd cu)
                       then rx_match fl (Star a) (fst r) (snd r) else [])
                 (rx_match fl a cu g)) @ [(cu, g)]"
| "rx_match fl (LazyStar a) cu g =
     (cu, g) #
     concat (map (\<lambda>r. if length (snd (fst r)) < length (snd cu)
                       then rx_match fl (LazyStar a) (fst r) (snd r) else [])
                 (rx_match fl a cu g))"
| "rx_match fl (Group a) cu g =
     map (\<lambda>r. (fst r, Some (take (length (snd cu) - length (snd (fst r))) (snd cu))))
         (rx_match fl a cu g)"
| "rx_match fl (Ahead a) cu g =
     (case rx_match fl a cu g of [] \<Rightarrow> [] | r # rs \<Rightarrow> [(cu, snd r)])"
| "rx_match fl WordB cu g = (if at_boundary cu then [(cu, g)] else [])"
| "rx_match fl EndZ cu g = (if snd cu = [] then [(cu, g)] else [])"
| "rx_match fl Dollar cu g = (if at_dollar fl cu then [(cu, g)] else [])"
  by pat_completeness auto
termination
  by (relation "inv_image (less_than <*lex*> less_than)
                  (\<lambda>(fl, r, cu, g). (size r, length (snd cu)))") auto

text \<open>The other operators of the pattern language, as \<open>re\<close> expands them:
  \<open>r+\<close> is \<open>rr*\<close>, \<open>r+?\<close> is \<open>rr*?\<close>, \<open>r?\<close> is \<open>(?:r|)\<close> and \<open>r{1,2}\<close> is
  \<open>r(?:r)?\<close>, each with the same order of attempts.\<close>

definition Plus :: "regex \<Rightarrow> regex" where
  "Plus r = Seq r (Star r)"

definition LazyPlus :: "regex \<Rightarrow> regex" where
  "LazyPlus r = Seq r (LazyStar r)"

definition Opt :: "regex \<Rightarrow> regex" where
  "Opt r = Alt r Eps"

definition OneOrTwo :: "regex \<Rightarrow> regex" where
  "OneOrTwo r = Seq r (Opt r)"

fun Seqs :: "regex list \<Rightarrow> regex" where
  "Seqs [] = Eps"
| "Seqs [r] = r"
| "Seqs (r # rs) = Seq r (Seqs rs)"

fun Alts :: "regex list \<Rightarrow> regex" where
  "Alts [] = Set []"
| "Alts [r] = r"
| "Alts (r # rs) = Alt r (Alts rs)"

text \<open>
  A match found by a search: the text skipped before it, the matched text, the text of
  group 1 and the cursor after the match.
\<close>

type_synonym rmatch = "string \<times> string \<times> string option \<times> cursor"

text \<open>
  The match at one start position. When \<open>adv\<close> is set the match must not be empty:
  \<open>sub\<close>, \<open>findall\<close> and \<open>split\<close> ask this at the position where the match before
  was empty.
\<close>

definition first_match ::
  "flag list \<Rightarrow> regex \<Rightarrow> bool \<Rightarrow> cursor \<Rightarrow> (cursor \<times> string option) option" where
  "first_match fl r adv cu =
     (case filter (\<lambda>res. \<not> adv \<or> length (snd (fst res)) < length (snd cu))
                  (rx_match fl r cu None) of
        [] \<Rightarrow> None
      | res # rest \<Rightarrow> Some res)"

fun search :: "flag list \<Rightarrow> regex \<Rightarrow> bool \<Rightarrow> char option \<Rightarrow> string \<Rightarrow> rmatch option" where
  "search fl r adv p [] =
     (case first_match fl r adv (p, []) of
        None \<Rightarrow> None
      | Some res \<Rightarrow> Some ([], [], snd res, fst res))"
| "search fl r adv p (c # x) =
     (case first_match fl r adv (p, c # x) of
        Some res \<Rightarrow>
          Some ([], take (Suc (length x) - length (snd (fst res))) (c # x), snd res, fst res)
      | None \<Rightarrow>
         (case search fl r False (Some c) x of
            None \<Rightarrow> None
          | Some (skip, mt, g, cu') \<Rightarrow> Some (c # skip, mt, g, cu')))"

text \<open>\<open>re.search(pattern, s, flags)\<close>: the leftmost match, or none.\<close>

definition re_search :: "flag list \<Rightarrow> regex \<Rightarrow> string \<Rightarrow> rmatch option" where
  "re_search fl r s = search fl r False None s"

text \<open>\<open>match.group(1)\<close>. In every pattern of the program the group lies on every way
  through the pattern, so a match always has it (\<open>search_sets_group\<close>,
  \<open>program_patterns_set_group\<close>).\<close>

definition group1 :: "rmatch \<Rightarrow> string" where
  "group1 mt = (case fst (snd (snd mt)) of None \<Rightarrow> [] | Some t \<Rightarrow> t)"

text \<open>
  The successive matches of a pattern, left to right, as \<open>sub\<close>, \<open>findall\<close> and
  \<open>split\<close> find them: each with the text between the match before and itself, and at the
  end the text after the last match. A search resumes where the match ended. The test on
  the lengths is what makes the scan end; it never fails, since a match ends within the
  text and is not empty where \<open>adv\<close> is set (\<open>scan_without_test\<close>).
\<close>

function scan ::
  "flag list \<Rightarrow> regex \<Rightarrow> bool \<Rightarrow> char option \<Rightarrow> string \<Rightarrow>
   (string \<times> string \<times> string option) list \<times> string" where
  "scan fl r adv p x =
     (case search fl r adv p x of
        None \<Rightarrow> ([], x)
      | Some (skip, mt, g, cu') \<Rightarrow>
          if length (snd cu') < length x \<or>
             (length (snd cu') = length x \<and> mt = [] \<and> \<not> adv)
          then (case scan fl r (mt = []) (fst cu') (snd cu') of
                  (ms, rest) \<Rightarrow> ((skip, mt, g) # ms, rest))
          else ([], x))"
  by pat_completeness auto
termination
  by (relation "measure (\<lambda>(fl, r, adv, p, x). 2 * length x + (if adv then 0 else 1))") auto

text \<open>\<open>re.findall(pattern, s)\<close> for a pattern with one group: the texts of the group.\<close>

definition re_findall :: "flag list \<Rightarrow> regex \<Rightarrow> string \<Rightarrow> string list" where
  "re_findall fl r s =
     map (\<lambda>mt. case snd (snd mt) of None \<Rightarrow> [] | Some t \<Rightarrow> t) (fst (scan fl r False None s))"

text \<open>\<open>re.sub(pattern, repl, s, count)\<close> for a replacement text without group
  references; \<open>count = 0\<close> replaces every match.\<close>

definition re_sub :: "flag list \<Rightarrow> regex \<Rightarrow> string \<Rightarrow> string \<Rightarrow> nat \<Rightarrow> string" where
  "re_sub fl r repl s count =
     (case scan fl r False None s of
        (ms, rest) \<Rightarrow>
          (let n = (if count = 0 then length ms else count) in
           concat (map (\<lambda>mt. fst mt @ repl) (take n ms)) @
           concat (map (\<lambda>mt. fst mt @ fst (snd mt)) (drop n ms)) @ rest))"

text \<open>\<open>re.split(pattern, s)\<close> for a pattern without groups that matches no empty
  text.\<close>

definition re_split :: "flag list \<Rightarrow> regex \<Rightarrow> string \<Rightarrow> string list" where
  "re_split fl r s = (case scan fl r False None s of (ms, rest) \<Rightarrow> map fst ms @ [rest])"

section \<open>The patterns of the program\<close>

text \<open>Each pattern is written the way the source spells it, given in the comment.\<close>

definition spaces :: regex where
  "spaces = Star (Set [CSpace])"

definition spaces1 :: regex where
  "spaces1 = Plus (Set [CSpace])"

definition word1 :: regex where
  "word1 = Plus (Set [CWord])"

definition newline :: regex where
  "newline = Lit [CHR 0x0A]"

text \<open>\<^verbatim>\<open>NAME\s*\n\s*\S+\s*[-<en dash><em dash>]\s*(.+?)(?=\n\S|\n\n)\<close> with \<open>DOTALL\<close>. The
  en dash and the em dash of the class are code points above 255, so within the model
  the class holds the hyphen only.\<close>

definition name_re :: regex where
  "name_re = Seqs [Lit ''NAME'', spaces, newline, spaces, Plus (NSet [CSpace]), spaces,
     Set [CChar CHR ''-''], spaces, Group (LazyPlus Dot),
     Ahead (Alt (Seq newline (NSet [CSpace])) (Seq newline newline))]"

text \<open>\<^verbatim>\<open>DESCRIPTION\s*\n\s*(.+?)(?=\n\S+\n|\n\n\S)\<close> with \<open>DOTALL\<close>.\<close>

definition description_re :: regex where
  "description_re = Seqs [Lit ''DESCRIPTION'', spaces, newline, spaces, Group (LazyPlus Dot),
     Ahead (Alt (Seqs [newline, Plus (NSet [CSpace]), newline])
                (Seqs [newline, newline, NSet [CSpace]]))]"

text \<open>\<^verbatim>\<open>[.!?]\s+\<close>\<close>

definition sentence_end_re :: regex where
  "sentence_end_re = Seq (Set [CChar CHR ''.'', CChar CHR ''!'', CChar CHR ''?'']) spaces1"

text \<open>\<^verbatim>\<open>\b(toggle|enable|disable|flag)\b\<close>\<close>

definition flag_words_re :: regex where
  "flag_words_re = Seqs [WordB,
     Group (Alts [Lit ''toggle'', Lit ''enable'', Lit ''disable'', Lit ''flag'']), WordB]"

text \<open>\<^verbatim>\<open>\b\w+=\w+\b\<close>\<close>

definition kv_equals_re :: regex where
  "kv_equals_re = Seqs [WordB, word1, Lit ''='', word1, WordB]"

text \<open>\<^verbatim>\<open>\bname=value\b\<close>, used with \<open>IGNORECASE\<close>.\<close>

definition name_value_re :: regex where
  "name_value_re = Seqs [WordB, Lit ''name=value'', WordB]"

text \<open>\<^verbatim>\<open>\b\w+:\w+\b\<close>\<close>

definition kv_colon_re :: regex where
  "kv_colon_re = Seqs [WordB, word1, Lit '':'', word1, WordB]"

text \<open>\<^verbatim>\<open>\busername:password\b\<close> and \<^verbatim>\<open>\bname:value\b\<close>, used with \<open>IGNORECASE\<close>.\<close>

definition username_password_re :: regex where
  "username_password_re = Seqs [WordB, Lit ''username:password'', WordB]"

definition name_colon_value_re :: regex where
  "name_colon_value_re = Seqs [WordB, Lit ''name:value'', WordB]"

text \<open>\<^verbatim>\<open>--\w+=\<close>\<close>

definition long_equals_re :: regex where
  "long_equals_re = Seqs [Lit ''--'', word1, Lit ''='']"

text \<open>\<^verbatim>\<open>\s+\w+(?:\s+|\]|$)\<close>\<close>

definition takes_value_re :: regex where
  "takes_value_re = Seqs [spaces1, word1, Alts [spaces1, Lit '']'', Dollar]]"

text \<open>\<^verbatim>\<open>\b(specify|set|use|take|accept|require)\b\<close>\<close>

definition value_words_re :: regex where
  "value_words_re = Seqs [WordB,
     Group (Alts [Lit ''specify'', Lit ''set'', Lit ''use'', Lit ''take'', Lit ''accept'',
                  Lit ''require'']), WordB]"

text \<open>\<^verbatim>\<open>\w+(?:[_-]\w+)*\<close>, the token the first three value patterns capture.\<close>

definition value_token :: regex where
  "value_token = Seq word1 (Star (Seq (Set [CChar CHR ''_'', CChar CHR ''-'']) word1))"

text \<open>The four \<open>value_patterns\<close>:
  \<^verbatim>\<open>[-<](\w+(?:[_-]\w+)*)[>\]]\<close>, \<^verbatim>\<open>\s+(\w+(?:[_-]\w+)*)\s*\.\.\.\<close>,
  \<^verbatim>\<open>=(\w+(?:[_-]\w+)*)\<close> and \<^verbatim>\<open>\s+([A-Z][A-Z_]+)\b\<close>.\<close>

definition value_patterns :: "regex list" where
  "value_patterns =
     [Seqs [Set [CChar CHR ''-'', CChar CHR ''<''], Group value_token,
            Set [CChar CHR ''>'', CChar CHR '']'']],
      Seqs [spaces1, Group value_token, spaces, Lit ''...''],
      Seqs [Lit ''='', Group value_token],
      Seqs [spaces1,
            Group (Seq (Set [CRange CHR ''A'' CHR ''Z''])
                       (Plus (Set [CRange CHR ''A'' CHR ''Z'', CChar CHR ''_'']))),
            WordB]]"

text \<open>\<^verbatim>\<open>(?:OPTIONS|The following options are available:?)\s*\n(.*?)(?=\n[A-Z][A-Z\s]+\n|\Z)\<close>
  with \<open>DOTALL\<close>, \<open>MULTILINE\<close> and \<open>IGNORECASE\<close>.\<close>

definition options_re :: regex where
  "options_re = Seqs [
     Alt (Lit ''OPTIONS'') (Seq (Lit ''The following options are available'') (Opt (Lit '':''))),
     spaces, newline, Group (LazyStar Dot),
     Ahead (Alt (Seqs [newline, Set [CRange CHR ''A'' CHR ''Z''],
                       Plus (Set [CRange CHR ''A'' CHR ''Z'', CSpace]), newline])
                EndZ)]"

definition options_flags :: "flag list" where
  "options_flags = [DOTALL, MULTILINE, IGNORECASE]"

text \<open>\<^verbatim>\<open>\n(?=\s+-)\<close>\<close>

definition entry_split_re :: regex where
  "entry_split_re = Seq newline (Ahead (Seq spaces1 (Lit ''-'')))"

text \<open>\<^verbatim>\<open>(-{1,2}[a-zA-Z0-9_-]+(?:=\S+)?|\-[a-zA-Z](?:\s+\S+)?)\<close>\<close>

definition option_pattern :: regex where
  "option_pattern = Group (Alt
     (Seqs [OneOrTwo (Lit ''-''),
            Plus (Set [CRange CHR ''a'' CHR ''z'', CRange CHR ''A'' CHR ''Z'',
                       CRange CHR ''0'' CHR ''9'', CChar CHR ''_'', CChar CHR ''-'']),
            Opt (Seq (Lit ''='') (Plus (NSet [CSpace])))])
     (Seqs [Lit ''-'', Set [CRange CHR ''a'' CHR ''z'', CRange CHR ''A'' CHR ''Z''],
            Opt (Seq spaces1 (Plus (NSet [CSpace])))]))"

text \<open>\<^verbatim>\<open>SYNOPSIS\s*\n\s*(.+?)(?=\n\n|\n[A-Z])\<close> with \<open>DOTALL\<close>.\<close>

definition synopsis_re :: regex where
  "synopsis_re = Seqs [Lit ''SYNOPSIS'', spaces, newline, spaces, Group (LazyPlus Dot),
     Ahead (Alt (Seq newline newline) (Seq newline (Set [CRange CHR ''A'' CHR ''Z''])))]"

text \<open>\<^verbatim>\<open>\[?-{1,2}\w+(?:\s+\w+)?\]?\<close>\<close>

definition option_token_re :: regex where
  "option_token_re = Seqs [Opt (Lit ''[''), OneOrTwo (Lit ''-''), word1,
     Opt (Seq spaces1 word1), Opt (Lit '']'')]"

text \<open>\<^verbatim>\<open>\[?([A-Z_]+|\w+\.\.\.)(?:\s+[A-Z_]+|\s+\w+\.\.\.)?\]?\<close>\<close>

definition upper_word :: regex where
  "upper_word = Plus (Set [CRange CHR ''A'' CHR ''Z'', CChar CHR ''_''])"

definition positional_pattern :: regex where
  "positional_pattern = Seqs [Opt (Lit ''[''),
     Group (Alt upper_word (Seq word1 (Lit ''...''))),
     Opt (Alt (Seq spaces1 upper_word) (Seqs [spaces1, word1, Lit ''...''])),
     Opt (Lit '']'')]"

section \<open>The records\<close>

text \<open>
  A parameter is a Python dictionary with the keys \<open>name\<close> and \<open>param-type\<close> and,
  when they are set, \<open>position\<close>, \<open>value-type\<close> and \<open>description\<close>. A key that the
  dictionary lacks is \<open>None\<close> here.
\<close>

record param =
  p_name :: string
  p_param_type :: string
  p_position :: "nat option"
  p_value_type :: "string option"
  p_description :: "string option"

record tool =
  t_name :: string
  t_description :: string
  t_parameters :: "param list"

section \<open>\<open>extract_description\<close>\<close>

definition extract_description :: "string \<Rightarrow> string" where
  "extract_description man_content =
     (case re_search [DOTALL] name_re man_content of
        Some name_match \<Rightarrow> re_sub [] spaces1 '' '' (strip (group1 name_match)) 0
      | None \<Rightarrow>
         (case re_search [DOTALL] description_re man_content of
            Some desc_match \<Rightarrow>
              (case re_split [] sentence_end_re (strip (group1 desc_match)) of
                 [] \<Rightarrow> ''No description available''
               | sentence # sentences \<Rightarrow> strip sentence)
          | None \<Rightarrow> ''No description available''))"

section \<open>\<open>classify_parameter_type\<close>\<close>

definition found :: "flag list \<Rightarrow> regex \<Rightarrow> string \<Rightarrow> bool" where
  "found fl r s = (re_search fl r s \<noteq> None)"

definition combined_text :: "string \<Rightarrow> string \<Rightarrow> string \<Rightarrow> string" where
  "combined_text param_name first_line description =
     param_name @ '' '' @ first_line @ '' '' @ description"

definition classify_parameter_type :: "string \<Rightarrow> string \<Rightarrow> string \<Rightarrow> string" where
  "classify_parameter_type param_name description first_line =
     (if found [] flag_words_re (lower description) then ''flag''
      else if found [] kv_equals_re (combined_text param_name first_line description) \<and>
              CHR ''='' \<notin> set param_name \<and>
              found [IGNORECASE] name_value_re (combined_text param_name first_line description)
           then ''option-kv-equals''
      else if found [] kv_colon_re (combined_text param_name first_line description) \<and>
              CHR '':'' \<notin> set param_name \<and>
              (found [IGNORECASE] username_password_re
                 (combined_text param_name first_line description) \<or>
               found [IGNORECASE] name_colon_value_re
                 (combined_text param_name first_line description))
           then ''option-kv-colon''
      else if CHR ''='' \<in> set param_name \<or> found [] long_equals_re description
           then ''option-equals''
      else if found [] takes_value_re param_name then ''option''
      else if startswith param_name ''-'' \<and> length param_name = 2
           then (if found [] value_words_re (lower description) then ''option'' else ''flag'')
      else ''option'')"

section \<open>\<open>extract_value_type\<close>\<close>

definition normalize_value_type :: "string \<Rightarrow> string" where
  "normalize_value_type value_type =
     (if value_type \<in> set [''file'', ''path'', ''filename'', ''filepath''] then ''file-path''
      else if value_type \<in> set [''num'', ''number'', ''n'', ''count''] then ''number''
      else if value_type \<in> set [''string'', ''str'', ''text''] then ''string''
      else if value_type \<in> set [''pid'', ''process''] then ''pid''
      else if value_type \<in> set [''dir'', ''directory''] then ''directory''
      else value_type)"

text \<open>The loop over \<open>value_patterns\<close>: the first pattern found in the text decides.\<close>

fun first_value_pattern :: "regex list \<Rightarrow> string \<Rightarrow> string option" where
  "first_value_pattern [] param_text = None"
| "first_value_pattern (pattern # patterns) param_text =
     (case re_search [] pattern param_text of
        Some mt \<Rightarrow> Some (normalize_value_type (lower (group1 mt)))
      | None \<Rightarrow> first_value_pattern patterns param_text)"

definition extract_value_type :: "string \<Rightarrow> string \<Rightarrow> string option" where
  "extract_value_type param_text description =
     (case first_value_pattern value_patterns param_text of
        Some value_type \<Rightarrow> Some value_type
      | None \<Rightarrow>
         (let desc_lower = lower description in
          if contains desc_lower ''file'' \<or> contains desc_lower ''path'' then Some ''file-path''
          else if contains desc_lower ''number'' \<or> contains desc_lower ''numeric''
               then Some ''number''
          else if contains desc_lower ''directory'' then Some ''directory''
          else if contains desc_lower ''pid'' \<or> contains desc_lower ''process id''
               then Some ''pid''
          else None))"

section \<open>\<open>parse_options\<close>\<close>

text \<open>
  The body of the loop over the entries, in the order of the source. \<open>entry_first_line\<close>
  is \<open>lines[0].strip()\<close>, \<open>entry_description\<close> is the description the loop builds, and
  \<open>parse_entry\<close> is \<open>None\<close> where the loop says \<open>continue\<close>.
\<close>

definition entry_lines :: "string \<Rightarrow> string list" where
  "entry_lines entry = split_on (CHR 0x0A) (strip entry)"

definition entry_first_line :: "string \<Rightarrow> string" where
  "entry_first_line entry = (case entry_lines entry of [] \<Rightarrow> [] | l # ls \<Rightarrow> strip l)"

definition entry_option_matches :: "string \<Rightarrow> string list" where
  "entry_option_matches entry = re_findall [] option_pattern (entry_first_line entry)"

definition entry_description :: "string \<Rightarrow> string" where
  "entry_description entry =
     (let first_line = entry_first_line entry;
          desc_on_first =
            strip (re_sub [] option_pattern [] first_line (length (entry_option_matches entry)));
          description_lines =
            (if desc_on_first \<noteq> [] then [desc_on_first] else []) @
            filter (\<lambda>cleaned. cleaned \<noteq> []) (map strip (tl (entry_lines entry)))
      in strip (re_sub [] spaces1 '' '' (join '' '' description_lines) 0))"

definition parse_entry :: "string \<Rightarrow> param option" where
  "parse_entry entry =
     (if strip entry = [] then None
      else if entry_lines entry = [] then None
      else if \<not> startswith (entry_first_line entry) ''-'' then None
      else (case entry_option_matches entry of
              [] \<Rightarrow> None
            | primary_option # others \<Rightarrow>
               (let description = entry_description entry;
                    param_type =
                      classify_parameter_type primary_option description (entry_first_line entry);
                    value_type =
                      (if param_type \<in> set [''flag''] then None
                       else extract_value_type (entry_first_line entry) description)
                in Some \<lparr> p_name = strip primary_option,
                          p_param_type = param_type,
                          p_position = None,
                          p_value_type =
                            (case value_type of None \<Rightarrow> None
                             | Some v \<Rightarrow> if v \<noteq> [] then Some v else None),
                          p_description =
                            (if description \<noteq> [] then Some (take 200 description) else None) \<rparr>)))"

fun parse_entries :: "string list \<Rightarrow> param list" where
  "parse_entries [] = []"
| "parse_entries (entry # entries) =
     (case parse_entry entry of
        None \<Rightarrow> parse_entries entries
      | Some p \<Rightarrow> p # parse_entries entries)"

definition parse_options :: "string \<Rightarrow> param list" where
  "parse_options man_content =
     (case re_search options_flags options_re man_content of
        None \<Rightarrow> []
      | Some options_match \<Rightarrow>
          parse_entries (re_split [] entry_split_re (group1 options_match)))"

section \<open>\<open>parse_positional_args\<close>\<close>

text \<open>
  The source puts the command name into a pattern as it is, \<^verbatim>\<open>\b{command}\b\<close>, and
  nothing in the program catches what \<open>re\<close> raises there. For a name without pattern
  syntax the pattern is the name between two word boundaries. When the first character
  of pattern syntax in the name is \<open>[\<close> and no \<open>]\<close> comes after it, the pattern holds a
  character set without its end and \<open>re\<close> raises \<open>re.error\<close>. What \<open>re\<close> makes of any
  other name with pattern syntax (a different pattern, or an error) is not modelled.
\<close>

datatype 'a outcome = Returns 'a | ReError | NotModelled

definition pattern_syntax :: "char list" where
  "pattern_syntax = CHR 0x5C # ''.^$*+?{}[]|()''"

definition unterminated_set :: "string \<Rightarrow> bool" where
  "unterminated_set command =
     (case dropWhile (\<lambda>c. c \<notin> set pattern_syntax) command of
        [] \<Rightarrow> False
      | c # rest \<Rightarrow> c = CHR ''['' \<and> CHR '']'' \<notin> set rest)"

definition command_pattern :: "string \<Rightarrow> regex outcome" where
  "command_pattern command =
     (if \<not> list_ex (\<lambda>c. c \<in> set pattern_syntax) command
      then Returns (Seqs [WordB, Lit command, WordB])
      else if unterminated_set command then ReError
      else NotModelled)"

definition positional_value_type :: "string \<Rightarrow> string" where
  "positional_value_type pos_arg =
     (let arg_lower = lower pos_arg in
      if contains arg_lower ''file'' \<or> contains arg_lower ''path'' then ''file-path''
      else if contains arg_lower ''dir'' then ''directory''
      else if contains arg_lower ''pid'' then ''pid''
      else rstrip_chars ''.'' arg_lower)"

text \<open>The loop over \<open>enumerate(positional_matches, 1)\<close>.\<close>

fun positional_records :: "nat \<Rightarrow> string list \<Rightarrow> param list" where
  "positional_records idx [] = []"
| "positional_records idx (pos_arg # pos_args) =
     (if strip pos_arg \<noteq> []
      then \<lparr> p_name = strip pos_arg,
             p_param_type = ''positional'',
             p_position = Some idx,
             p_value_type = Some (positional_value_type pos_arg),
             p_description = None \<rparr> # positional_records (Suc idx) pos_args
      else positional_records (Suc idx) pos_args)"

text \<open>The part of the function after the SYNOPSIS section is found, for the compiled pattern
  of the command name.\<close>

definition positional_of_synopsis :: "regex \<Rightarrow> string \<Rightarrow> param list" where
  "positional_of_synopsis command_re synopsis =
     positional_records 1
       (re_findall [] positional_pattern
          (re_sub [] option_token_re [] (re_sub [] command_re [] synopsis 0) 0))"

definition parse_positional_args :: "string \<Rightarrow> string \<Rightarrow> param list outcome" where
  "parse_positional_args man_content command =
     (case re_search [DOTALL] synopsis_re man_content of
        None \<Rightarrow> Returns []
      | Some synopsis_match \<Rightarrow>
         (case command_pattern command of
            Returns command_re \<Rightarrow>
              Returns (positional_of_synopsis command_re (strip (group1 synopsis_match)))
          | ReError \<Rightarrow> ReError
          | NotModelled \<Rightarrow> NotModelled))"

section \<open>\<open>man_to_json\<close>\<close>

text \<open>
  \<open>get_man_page\<close> runs the viewer and the web fetch; its result for the command is an
  input of the model: the text, or \<open>None\<close>. \<open>man_to_json\<close> returns \<open>None\<close> when there is
  no text or the text is empty, else the tool record (the value under the key \<open>tool\<close>).
\<close>

definition man_to_json :: "string option \<Rightarrow> string \<Rightarrow> tool option outcome" where
  "man_to_json page command =
     (case page of
        None \<Rightarrow> Returns None
      | Some man_content \<Rightarrow>
          if man_content = [] then Returns None
          else (case parse_positional_args man_content command of
                  Returns positional \<Rightarrow>
                    Returns (Some \<lparr> t_name = command,
                                    t_description = extract_description man_content,
                                    t_parameters = positional @ parse_options man_content \<rparr>)
                | ReError \<Rightarrow> ReError
                | NotModelled \<Rightarrow> NotModelled))"

section \<open>The output document\<close>

text \<open>
  A parsed JSON value, as \<open>json.load\<close> returns it. An object is a Python dictionary: its
  entries in order, each key once. The program never looks into a float.
\<close>

typedecl pyfloat

datatype json =
    JNull
  | JBool bool
  | JInt int
  | JFloat pyfloat
  | JString string
  | JArray "json list"
  | JObject "(string \<times> json) list"

definition param_json :: "param \<Rightarrow> json" where
  "param_json p = JObject (
     [(''name'', JString (p_name p)), (''param-type'', JString (p_param_type p))] @
     (case p_position p of None \<Rightarrow> [] | Some idx \<Rightarrow> [(''position'', JInt (int idx))]) @
     (case p_value_type p of None \<Rightarrow> [] | Some v \<Rightarrow> [(''value-type'', JString v)]) @
     (case p_description p of None \<Rightarrow> [] | Some d \<Rightarrow> [(''description'', JString d)]))"

definition tool_json :: "tool \<Rightarrow> json" where
  "tool_json t = JObject
     [(''name'', JString (t_name t)),
      (''description'', JString (t_description t)),
      (''parameters'', JArray (map param_json (t_parameters t)))]"

text \<open>\<open>"tools" in existing_data\<close>: a key of a dictionary, an element of a list, a part of
  a string; on any other value Python raises \<open>TypeError\<close> (\<open>None\<close> here).\<close>

fun has_tools :: "json \<Rightarrow> bool option" where
  "has_tools (JObject entries) = Some (map_of entries ''tools'' \<noteq> None)"
| "has_tools (JArray xs) = Some (JString ''tools'' \<in> set xs)"
| "has_tools (JString s) = Some (contains s ''tools'')"
| "has_tools other = None"

datatype merge_error = ToolsNotArray | PyException

text \<open>
  The lines between reading the existing document and writing it back: the document to
  write, or the error. \<open>existing_data["tools"]\<close> on a list or a string raises
  \<open>TypeError\<close>, which the last \<open>except\<close> clause catches.
\<close>

definition merge_tool :: "json \<Rightarrow> json \<Rightarrow> merge_error + json" where
  "merge_tool existing_data new_tool =
     (case has_tools existing_data of
        None \<Rightarrow> Inl PyException
      | Some False \<Rightarrow> Inr (JObject [(''tools'', JArray [new_tool])])
      | Some True \<Rightarrow>
         (case existing_data of
            JObject entries \<Rightarrow>
              (case map_of entries ''tools'' of
                 Some (JArray tools) \<Rightarrow>
                   Inr (JObject (AList.update ''tools'' (JArray (tools @ [new_tool])) entries))
               | Some other \<Rightarrow> Inl ToolsNotArray
               | None \<Rightarrow> Inl PyException)
          | other \<Rightarrow> Inl PyException))"

section \<open>\<open>main\<close>\<close>

text \<open>
  What a run reads: the arguments, the text \<open>get_man_page\<close> returns for the command, the
  state of the file named by \<open>-o\<close>, and whether that file can be opened for writing. A
  file holds a document (its text parses to the value), text that is not JSON, or cannot
  be read. What a run leaves: the exit code, the state of the file, the document it
  dumped into the file (with the indent), what it printed on standard output, and its own
  messages on the error stream. A write that fails is a failing \<open>open\<close>, which leaves the
  file as it was. An error raised inside \<open>man_to_json\<close> is caught nowhere: \<open>main\<close> does not
  return, and the program ends before it reads or writes the file.
\<close>

datatype file_state = Missing | ReadError | NotJson | Document json

datatype message =
    NotAnArrayMessage
  | Appended string string
  | CouldNotParse string
  | ErrorWriting
  | Created string string

record env =
  arg_command :: string
  arg_output_file :: "string option"
  arg_pretty :: bool
  env_man_page :: "string option"
  env_file :: file_state
  env_can_write :: bool

record run =
  exit_code :: nat
  file_after :: file_state
  written :: "(json \<times> nat option) option"
  stdout :: "(json \<times> nat option) option"
  stderr :: "message list"

definition failed :: "env \<Rightarrow> message list \<Rightarrow> run" where
  "failed e msgs =
     \<lparr> exit_code = 1, file_after = env_file e, written = None, stdout = None, stderr = msgs \<rparr>"

definition wrote :: "env \<Rightarrow> json \<Rightarrow> message \<Rightarrow> run" where
  "wrote e doc msg =
     (if env_can_write e
      then \<lparr> exit_code = 0, file_after = Document doc,
             written = Some (doc, if arg_pretty e then Some 2 else None),
             stdout = None, stderr = [msg] \<rparr>
      else failed e [ErrorWriting])"

definition handle_output :: "env \<Rightarrow> tool \<Rightarrow> run" where
  "handle_output e t =
     (if arg_output_file e \<noteq> None \<and> arg_output_file e \<noteq> Some []
      then (let output_file = (case arg_output_file e of None \<Rightarrow> [] | Some path \<Rightarrow> path) in
            case env_file e of
              Document existing_data \<Rightarrow>
                (case merge_tool existing_data (tool_json t) of
                   Inl ToolsNotArray \<Rightarrow> failed e [NotAnArrayMessage]
                 | Inl PyException \<Rightarrow> failed e [ErrorWriting]
                 | Inr doc \<Rightarrow> wrote e doc (Appended (arg_command e) output_file))
            | NotJson \<Rightarrow> failed e [CouldNotParse output_file]
            | ReadError \<Rightarrow> failed e [ErrorWriting]
            | Missing \<Rightarrow>
                wrote e (JObject [(''tools'', JArray [tool_json t])])
                      (Created (arg_command e) output_file))
      else \<lparr> exit_code = 0, file_after = env_file e, written = None,
             stdout = Some (JObject [(''tool'', tool_json t)],
                            if arg_pretty e then Some 2 else None),
             stderr = [] \<rparr>)"

definition main :: "env \<Rightarrow> run outcome" where
  "main e =
     (case man_to_json (env_man_page e) (arg_command e) of
        Returns None \<Rightarrow> Returns (failed e [])
      | Returns (Some t) \<Rightarrow> Returns (handle_output e t)
      | ReError \<Rightarrow> ReError
      | NotModelled \<Rightarrow> NotModelled)"

section \<open>Notions for the facts below\<close>

text \<open>These are not part of the program: they state facts about the matcher and about
  what the patterns of the program match.\<close>

text \<open>The character before the position reached after reading \<open>pre\<close> from a position
  whose character before is \<open>p\<close>.\<close>

definition prev_char :: "char option \<Rightarrow> string \<Rightarrow> char option" where
  "prev_char p pre = (if pre = [] then p else Some (last pre))"

text \<open>A pattern that sets group 1 on every way through it.\<close>

fun sets_group :: "regex \<Rightarrow> bool" where
  "sets_group (Group a) = True"
| "sets_group (Seq a b) = (sets_group a \<or> sets_group b)"
| "sets_group (Alt a b) = (sets_group a \<and> sets_group b)"
| "sets_group r = False"

text \<open>A pattern that matches exactly one character, those that satisfy \<open>M\<close>.\<close>

definition atom_of :: "flag list \<Rightarrow> regex \<Rightarrow> (char \<Rightarrow> bool) \<Rightarrow> bool" where
  "atom_of fl a M =
     (\<forall>p g. rx_match fl a (p, []) g = [] \<and>
            (\<forall>c x. rx_match fl a (p, c # x) g = (if M c then [((Some c, x), g)] else [])))"

text \<open>
  Where the description of the NAME section ends, in the words of the spec: before a
  newline that is followed by a character that is not white space (the next line is not
  indented) or by a second newline (the next line is blank). \<open>until_description_end y\<close>
  cuts \<open>y\<close> at the first such place: the text before it and the text from it on; there is
  none when \<open>y\<close> has no such place.
\<close>

fun at_description_end :: "string \<Rightarrow> bool" where
  "at_description_end (n # c # y) = (n = CHR 0x0A \<and> (\<not> is_space c \<or> c = CHR 0x0A))"
| "at_description_end y = False"

fun until_description_end :: "string \<Rightarrow> (string \<times> string) option" where
  "until_description_end [] = None"
| "until_description_end (c # y) =
     (if at_description_end (c # y) then Some ([], c # y)
      else (case until_description_end y of
              None \<Rightarrow> None
            | Some (d, tail) \<Rightarrow> Some (c # d, tail)))"




section \<open>Sample inputs\<close>

text \<open>The texts of the spec's examples, and the arguments and results of sample runs.\<close>

abbreviation foo_page :: string where
  "foo_page \<equiv> ''NAME\<newline>    foo - does a thing\<newline>\<newline>''"

abbreviation bar_page :: string where
  "bar_page \<equiv> ''NAME\<newline>    bar - does more\<newline>\<newline>''"

abbreviation verbose_section :: string where
  "verbose_section \<equiv> ''OPTIONS\<newline>    -v, --verbose    enable verbose output\<newline>''"

abbreviation foo_tool :: tool where
  "foo_tool \<equiv> \<lparr> t_name = ''foo'', t_description = ''does a thing'', t_parameters = [] \<rparr>"

abbreviation bar_tool :: tool where
  "bar_tool \<equiv> \<lparr> t_name = ''bar'', t_description = ''does more'', t_parameters = [] \<rparr>"

abbreviation grep_page :: string where
  "grep_page \<equiv> ''SYNOPSIS\<newline>    grep [OPTIONS] PATTERN [FILE]...\<newline>\<newline>''"


abbreviation sample_env :: "string \<Rightarrow> string \<Rightarrow> file_state \<Rightarrow> env" where
  "sample_env cmd page f \<equiv>
     \<lparr> arg_command = cmd, arg_output_file = Some ''tools.json'', arg_pretty = False,
       env_man_page = Some page, env_file = f, env_can_write = True \<rparr>"

abbreviation sample_run :: "json \<Rightarrow> message \<Rightarrow> run" where
  "sample_run doc msg \<equiv>
     \<lparr> exit_code = 0, file_after = Document doc, written = Some (doc, None), stdout = None,
       stderr = [msg] \<rparr>"

abbreviation verbose_entry :: string where
  "verbose_entry \<equiv> ''-v, --verbose    enable verbose output''"



text \<open>The manual page of the command \<open>[\<close>, cut down to a NAME and a SYNOPSIS section.\<close>

abbreviation bracket_page :: string where
  "bracket_page \<equiv> ''NAME\<newline>    [ - evaluate expression\<newline>\<newline>SYNOPSIS\<newline>    [ EXPRESSION ]\<newline>\<newline>''"

section \<open>Facts about characters and the matcher\<close>

text \<open>The equations of the two repetitions unfold without end under the simplifier; they
  are applied by hand.\<close>

declare rx_match.simps(8) [simp del]
declare rx_match.simps(9) [simp del]

lemma of_char_lt_256: "(of_char c :: nat) < 256"
  by (cases c) (simp add: of_char_Char)

lemma is_word_py_lower: "is_word (py_lower c) = is_word c"
proof -
  have "(of_char c :: nat) < 256" by (rule of_char_lt_256)
  then show ?thesis
    unfolding is_word_def py_lower_def Let_def
    by (auto simp add: of_char_of)
qed

lemma first_match_nonempty:
  "rx_match fl r cu None \<noteq> [] \<Longrightarrow> first_match fl r False cu \<noteq> None"
  by (cases "rx_match fl r cu None") (simp_all add: first_match_def)

lemma search_found:
  "first_match fl r False (prev_char p pre, x) \<noteq> None \<Longrightarrow> search fl r False p (pre @ x) \<noteq> None"
proof (induction pre arbitrary: p)
  case Nil
  then show ?case by (cases x) (auto simp: prev_char_def)
next
  case (Cons c pre)
  have "prev_char (Some c) pre = prev_char p (c # pre)"
    by (simp add: prev_char_def)
  with Cons.prems have "first_match fl r False (prev_char (Some c) pre, x) \<noteq> None"
    by simp
  then have "search fl r False (Some c) (pre @ x) \<noteq> None"
    by (rule Cons.IH)
  then show ?case
    by (auto split: option.splits)
qed

lemma found_at:
  "rx_match fl r (prev_char None pre, x) None \<noteq> [] \<Longrightarrow> found fl r (pre @ x)"
  unfolding found_def re_search_def
  by (intro search_found first_match_nonempty)

lemma flag_word_found:
  assumes w: "w \<in> set [''toggle'', ''enable'', ''disable'', ''flag'']"
    and pre: "pre = [] \<or> \<not> is_word (last pre)"
    and post: "post = [] \<or> \<not> is_word (hd post)"
  shows "found [] flag_words_re (pre @ w @ post)"
proof (rule found_at)
  have b: "(case prev_char None pre of None \<Rightarrow> False | Some c \<Rightarrow> is_word c) = False"
    using pre by (auto simp: prev_char_def)
  have a: "(case post of [] \<Rightarrow> False | c # x \<Rightarrow> is_word c) = False"
    using post by (cases post) auto
  show "rx_match [] flag_words_re (prev_char None pre, w @ post) None \<noteq> []"
    using w
    by (auto simp add: flag_words_re_def at_boundary_def chr_match_def a b is_word_def)
qed

lemma lower_append: "lower (a @ b) = lower a @ lower b"
  by (simp add: lower_def)

lemma flag_words_lower:
  "w \<in> set [''toggle'', ''enable'', ''disable'', ''flag''] \<Longrightarrow> lower w = w"
  by (auto simp add: lower_def py_lower_def)

lemma boundary_before_lower:
  "pre = [] \<or> \<not> is_word (last pre) \<Longrightarrow> lower pre = [] \<or> \<not> is_word (last (lower pre))"
  by (auto simp add: lower_def last_map is_word_py_lower)

lemma boundary_after_lower:
  "post = [] \<or> \<not> is_word (hd post) \<Longrightarrow> lower post = [] \<or> \<not> is_word (hd (lower post))"
  by (auto simp add: lower_def hd_map is_word_py_lower)

lemma classify_flag_word:
  assumes "w \<in> set [''toggle'', ''enable'', ''disable'', ''flag'']"
    and "pre = [] \<or> \<not> is_word (last pre)"
    and "post = [] \<or> \<not> is_word (hd post)"
  shows "classify_parameter_type param_name (pre @ w @ post) first_line = ''flag''"
proof -
  have "lower (pre @ w @ post) = lower pre @ w @ lower post"
    using assms(1) by (simp only: lower_append flag_words_lower)
  moreover have "found [] flag_words_re (lower pre @ w @ lower post)"
    using assms by (intro flag_word_found boundary_before_lower boundary_after_lower)
  ultimately show ?thesis
    by (simp add: classify_parameter_type_def)
qed

lemma parse_entry_param_type:
  "parse_entry entry = Some p \<Longrightarrow>
   p_param_type p =
     classify_parameter_type (hd (entry_option_matches entry)) (entry_description entry)
       (entry_first_line entry)"
  by (auto simp add: parse_entry_def Let_def split: if_splits list.splits)

lemma prev_char_append: "prev_char (prev_char p a) b = prev_char p (a @ b)"
  by (simp add: prev_char_def)

lemma lit_match_all2:
  "list_all2 (chr_match fl) ds w \<Longrightarrow> lit_match fl ds (p, w @ x) = Some (prev_char p w, x)"
proof (induction ds arbitrary: w p)
  case Nil
  then show ?case by (simp add: prev_char_def)
next
  case (Cons d ds)
  then obtain c w' where w: "w = c # w'" and c: "chr_match fl d c" and r: "list_all2 (chr_match fl) ds w'"
    by (auto simp: list_all2_Cons1)
  have "lit_match fl ds (Some c, w' @ x) = Some (prev_char (Some c) w', x)"
    using r by (rule Cons.IH)
  moreover have "prev_char (Some c) w' = prev_char p (c # w')"
    by (simp add: prev_char_def)
  ultimately show ?case using w c by simp
qed


lemma lit_match_exact: "lit_match [] ds (p, ds @ x) = Some (prev_char p ds, x)"
  by (rule lit_match_all2) (simp add: list_all2_conv_all_nth chr_match_def)











lemma first_match_Some_nonempty:
  "first_match fl r adv cu = Some res \<Longrightarrow> rx_match fl r cu None \<noteq> []"
  by (auto simp add: first_match_def split: list.splits)

lemma search_Some_split:
  "search fl r adv p s = Some (skip, mt, g, cu') \<Longrightarrow>
   \<exists>x p'. s = skip @ x \<and> rx_match fl r (p', x) None \<noteq> []"
proof (induction s arbitrary: p adv skip)
  case Nil
  then show ?case
    by (auto split: option.splits dest: first_match_Some_nonempty)
next
  case (Cons c s)
  show ?case
  proof (cases "first_match fl r adv (p, c # s)")
    case (Some res)
    with Cons.prems have "skip = []" by simp
    moreover from Some have "rx_match fl r (p, c # s) None \<noteq> []"
      by (rule first_match_Some_nonempty)
    ultimately show ?thesis by auto
  next
    case None
    with Cons.prems obtain skip' where
      s: "search fl r False (Some c) s = Some (skip', mt, g, cu')" and k: "skip = c # skip'"
      by (auto split: option.splits)
    from Cons.IH[OF s] obtain x p' where "s = skip' @ x" and "rx_match fl r (p', x) None \<noteq> []"
      by blast
    with k show ?thesis by auto
  qed
qed

lemma found_split:
  "found fl r s \<Longrightarrow> \<exists>skip x p'. s = skip @ x \<and> rx_match fl r (p', x) None \<noteq> []"
proof -
  assume "found fl r s"
  then obtain skip mt g cu' where "search fl r False None s = Some (skip, mt, g, cu')"
    by (auto simp add: found_def re_search_def)
  then show ?thesis by (blast dest: search_Some_split)
qed

lemma not_found: "\<not> found fl r s \<Longrightarrow> re_search fl r s = None"
  unfolding found_def by blast

lemma alt_nonempty:
  "rx_match fl (Alt a b) cu g \<noteq> [] \<Longrightarrow>
   rx_match fl a cu g \<noteq> [] \<or> rx_match fl b cu g \<noteq> []"
  by simp

lemma seq_nonempty_first:
  "rx_match fl (Seq a b) cu g \<noteq> [] \<Longrightarrow> rx_match fl a cu g \<noteq> []"
  by auto

lemma lit_match_Some_prefix:
  "lit_match fl ds (p, x) = Some cu' \<Longrightarrow> \<exists>w x'. x = w @ x' \<and> list_all2 (chr_match fl) ds w"
proof (induction ds arbitrary: p x)
  case Nil
  then show ?case by auto
next
  case (Cons d ds)
  then obtain c y where x: "x = c # y" and c: "chr_match fl d c"
    and l: "lit_match fl ds (Some c, y) = Some cu'"
    by (cases x) (auto split: if_splits)
  from Cons.IH[OF l] obtain w x' where "y = w @ x'" and "list_all2 (chr_match fl) ds w"
    by blast
  with x c have "x = (c # w) @ x'" and "list_all2 (chr_match fl) (d # ds) (c # w)"
    by simp_all
  then show ?case by blast
qed

lemma all2_ignorecase_lower:
  "list_all2 (chr_match fl) ds w \<Longrightarrow> IGNORECASE \<in> set fl \<Longrightarrow> lower w = lower ds"
  by (induction ds w rule: list_all2_induct) (simp_all add: lower_def chr_match_def)

lemma all2_exact:
  "list_all2 (chr_match fl) ds w \<Longrightarrow> IGNORECASE \<notin> set fl \<Longrightarrow> w = ds"
  by (induction ds w rule: list_all2_induct) (simp_all add: chr_match_def)

lemma lit_nonempty_text:
  assumes "rx_match fl (Lit ds) (p, x) g \<noteq> []"
  shows "\<exists>w x'. x = w @ x' \<and> list_all2 (chr_match fl) ds w"
proof -
  from assms obtain cu' where "lit_match fl ds (p, x) = Some cu'"
    by (auto split: option.splits)
  then show ?thesis by (rule lit_match_Some_prefix)
qed

lemma contains_prefix: "contains (w @ b) w"
proof (cases "w @ b")
  case Nil
  then show ?thesis by simp
next
  case (Cons c s)
  have "startswith (w @ b) w" by (simp add: startswith_def)
  then show ?thesis unfolding Cons by simp
qed

lemma contains_middle: "contains (a @ w @ b) w"
proof (induction a)
  case Nil
  show ?case by (simp add: contains_prefix)
next
  case (Cons c a)
  then show ?case by simp
qed

lemma options_found_text:
  assumes "found options_flags options_re man_content"
  shows "contains (lower man_content) ''options''"
proof -
  from assms obtain skip x p' where s: "man_content = skip @ x"
    and m: "rx_match options_flags options_re (p', x) None \<noteq> []"
    by (blast dest: found_split)
  let ?long = "''The following options are available''"
  from m have "rx_match options_flags
      (Alt (Lit ''OPTIONS'') (Seq (Lit ?long) (Opt (Lit '':'')))) (p', x) None \<noteq> []"
    unfolding options_re_def Seqs.simps by (rule seq_nonempty_first)
  then have "rx_match options_flags (Lit ''OPTIONS'') (p', x) None \<noteq> [] \<or>
             rx_match options_flags (Lit ?long) (p', x) None \<noteq> []"
    by (blast dest: alt_nonempty seq_nonempty_first)
  then obtain ds w x' where ds: "ds = ''OPTIONS'' \<or> ds = ?long" and x: "x = w @ x'"
    and a: "list_all2 (chr_match options_flags) ds w"
    by (blast dest: lit_nonempty_text)
  from a have l: "lower w = lower ds"
    by (rule all2_ignorecase_lower) (simp add: options_flags_def)
  have "lower ''OPTIONS'' = ''options''"
    by code_simp
  then have lo: "lower ''OPTIONS'' = [] @ ''options'' @ []"
    by simp
  have "lower ?long = ''the following options are available''"
    by code_simp
  then have ll: "lower ?long = ''the following '' @ ''options'' @ '' are available''"
    by simp
  from ds l lo ll obtain u v where "lower w = u @ ''options'' @ v"
    by metis
  then have "lower man_content = (lower skip @ u) @ ''options'' @ (v @ lower x')"
    using s x by (simp add: lower_append)
  then show ?thesis by (simp only: contains_middle)
qed

lemma synopsis_found_text:
  assumes "found [DOTALL] synopsis_re man_content"
  shows "contains man_content ''SYNOPSIS''"
proof -
  from assms obtain skip x p' where s: "man_content = skip @ x"
    and m: "rx_match [DOTALL] synopsis_re (p', x) None \<noteq> []"
    by (blast dest: found_split)
  from m have "rx_match [DOTALL] (Lit ''SYNOPSIS'') (p', x) None \<noteq> []"
    unfolding synopsis_re_def Seqs.simps by (rule seq_nonempty_first)
  then obtain w x' where x: "x = w @ x'" and a: "list_all2 (chr_match [DOTALL]) ''SYNOPSIS'' w"
    by (blast dest: lit_nonempty_text)
  from a have "w = ''SYNOPSIS''" by (rule all2_exact) simp
  with s x have "man_content = skip @ ''SYNOPSIS'' @ x'" by simp
  then show ?thesis by (simp only: contains_middle)
qed

text \<open>A match is a part of the text, and the scan cuts the text into the parts between
  the matches, the matches and the rest.\<close>

lemma lit_match_suffix:
  "lit_match fl ds (p, x) = Some cu' \<Longrightarrow> \<exists>w. x = w @ snd cu'"
proof (induction ds arbitrary: p x)
  case Nil
  then show ?case by auto
next
  case (Cons d ds)
  then obtain c y where x: "x = c # y" and l: "lit_match fl ds (Some c, y) = Some cu'"
    by (cases x) (auto split: if_splits)
  from Cons.IH[OF l] obtain w where "y = w @ snd cu'" by blast
  with x have "x = (c # w) @ snd cu'" by simp
  then show ?case by blast
qed

lemma rx_match_suffix:
  "res \<in> set (rx_match fl r cu g) \<Longrightarrow> \<exists>w. snd cu = w @ snd (fst res)"
proof (induction fl r cu g arbitrary: res rule: rx_match.induct)
  case (1 fl cu g)
  then show ?case by auto
next
  case (2 fl ds cu g)
  show ?case
  proof (cases "lit_match fl ds cu")
    case None
    with "2.prems" show ?thesis by simp
  next
    case (Some cu')
    with "2.prems" have r: "res = (cu', g)" by simp
    from Some have "lit_match fl ds (fst cu, snd cu) = Some cu'" by simp
    then obtain w where "snd cu = w @ snd cu'" by (blast dest: lit_match_suffix)
    with r show ?thesis by simp
  qed
next
  case (3 fl cu g)
  then show ?case by (cases "snd cu") (auto split: if_splits)
next
  case (4 fl its cu g)
  then show ?case by (cases "snd cu") (auto split: if_splits)
next
  case (5 fl its cu g)
  then show ?case by (cases "snd cu") (auto split: if_splits)
next
  case (6 fl a b cu g)
  from "6.prems" obtain r1 where r1: "r1 \<in> set (rx_match fl a cu g)"
    and r2: "res \<in> set (rx_match fl b (fst r1) (snd r1))"
    by auto
  from "6.IH"(1)[OF r1] obtain w1 where w1: "snd cu = w1 @ snd (fst r1)" by blast
  from "6.IH"(2)[OF r1 r2] obtain w2 where "snd (fst r1) = w2 @ snd (fst res)" by blast
  with w1 have "snd cu = (w1 @ w2) @ snd (fst res)" by simp
  then show ?case by blast
next
  case (7 fl a b cu g)
  from "7.prems" have "res \<in> set (rx_match fl a cu g) \<or> res \<in> set (rx_match fl b cu g)"
    by simp
  then show ?case using "7.IH" by blast
next
  case (8 fl a cu g)
  from "8.prems" have "res = (cu, g) \<or>
      (\<exists>r1 \<in> set (rx_match fl a cu g). length (snd (fst r1)) < length (snd cu) \<and>
          res \<in> set (rx_match fl (Star a) (fst r1) (snd r1)))"
    by (subst (asm) rx_match.simps(8)) (auto split: if_splits)
  then show ?case
  proof
    assume "res = (cu, g)"
    then show ?thesis by simp
  next
    assume "\<exists>r1 \<in> set (rx_match fl a cu g). length (snd (fst r1)) < length (snd cu) \<and>
          res \<in> set (rx_match fl (Star a) (fst r1) (snd r1))"
    then obtain r1 where r1: "r1 \<in> set (rx_match fl a cu g)"
      and lt: "length (snd (fst r1)) < length (snd cu)"
      and r2: "res \<in> set (rx_match fl (Star a) (fst r1) (snd r1))"
      by blast
    from "8.IH"(1)[OF r1] obtain w1 where w1: "snd cu = w1 @ snd (fst r1)" by blast
    from "8.IH"(2)[OF r1 lt r2] obtain w2 where "snd (fst r1) = w2 @ snd (fst res)" by blast
    with w1 have "snd cu = (w1 @ w2) @ snd (fst res)" by simp
    then show ?thesis by blast
  qed
next
  case (9 fl a cu g)
  from "9.prems" have "res = (cu, g) \<or>
      (\<exists>r1 \<in> set (rx_match fl a cu g). length (snd (fst r1)) < length (snd cu) \<and>
          res \<in> set (rx_match fl (LazyStar a) (fst r1) (snd r1)))"
    by (subst (asm) rx_match.simps(9)) (auto split: if_splits)
  then show ?case
  proof
    assume "res = (cu, g)"
    then show ?thesis by simp
  next
    assume "\<exists>r1 \<in> set (rx_match fl a cu g). length (snd (fst r1)) < length (snd cu) \<and>
          res \<in> set (rx_match fl (LazyStar a) (fst r1) (snd r1))"
    then obtain r1 where r1: "r1 \<in> set (rx_match fl a cu g)"
      and lt: "length (snd (fst r1)) < length (snd cu)"
      and r2: "res \<in> set (rx_match fl (LazyStar a) (fst r1) (snd r1))"
      by blast
    from "9.IH"(1)[OF r1] obtain w1 where w1: "snd cu = w1 @ snd (fst r1)" by blast
    from "9.IH"(2)[OF r1 lt r2] obtain w2 where "snd (fst r1) = w2 @ snd (fst res)" by blast
    with w1 have "snd cu = (w1 @ w2) @ snd (fst res)" by simp
    then show ?thesis by blast
  qed
next
  case (10 fl a cu g)
  then show ?case by auto
next
  case (11 fl a cu g)
  then show ?case by (auto split: list.splits)
next
  case (12 fl cu g)
  then show ?case by (auto split: if_splits)
next
  case (13 fl cu g)
  then show ?case by (auto split: if_splits)
next
  case (14 fl cu g)
  then show ?case by (auto split: if_splits)
qed

lemma first_match_Some_parts:
  assumes "first_match fl r adv cu = Some res"
  shows "\<exists>w. snd cu = w @ snd (fst res) \<and> (adv \<longrightarrow> w \<noteq> [])"
proof -
  let ?ok = "\<lambda>res. \<not> adv \<or> length (snd (fst res)) < length (snd cu)"
  from assms obtain rest where "filter ?ok (rx_match fl r cu None) = res # rest"
    by (auto simp add: first_match_def split: list.splits)
  then have "res \<in> set (filter ?ok (rx_match fl r cu None))" by simp
  then have m: "res \<in> set (rx_match fl r cu None)" and ok: "?ok res" by simp_all
  from m obtain w where w: "snd cu = w @ snd (fst res)" by (blast dest: rx_match_suffix)
  with ok have "adv \<longrightarrow> w \<noteq> []" by auto
  with w show ?thesis by blast
qed

lemma search_Some_parts:
  "search fl r adv p s = Some (skip, mt, g, cu') \<Longrightarrow>
   s = skip @ mt @ snd cu' \<and> (adv \<and> skip = [] \<longrightarrow> mt \<noteq> [])"
proof (induction s arbitrary: p adv skip)
  case Nil
  then obtain res where f: "first_match fl r adv (p, []) = Some res"
    and e: "skip = []" "mt = []" "cu' = fst res"
    by (auto split: option.splits)
  from first_match_Some_parts[OF f] show ?case using e by auto
next
  case (Cons c s)
  show ?case
  proof (cases "first_match fl r adv (p, c # s)")
    case (Some res)
    with Cons.prems have e: "skip = []" "cu' = fst res"
      "mt = take (Suc (length s) - length (snd (fst res))) (c # s)"
      by auto
    from first_match_Some_parts[OF Some] obtain w where
      w: "c # s = w @ snd (fst res)" and a: "adv \<longrightarrow> w \<noteq> []"
      by auto
    have "Suc (length s) - length (snd (fst res)) = length w"
      using arg_cong[OF w, of length] by simp
    then have "mt = w" using e(3) w by simp
    with e w a show ?thesis by simp
  next
    case None
    with Cons.prems obtain skip' where
      s: "search fl r False (Some c) s = Some (skip', mt, g, cu')" and k: "skip = c # skip'"
      by (auto split: option.splits)
    from Cons.IH[OF s] k show ?thesis by simp
  qed
qed


lemma scan_partition:
  "scan fl r adv p x = (ms, rest) \<Longrightarrow>
   concat (map (\<lambda>mt. fst mt @ fst (snd mt)) ms) @ rest = x"
proof (induction fl r adv p x arbitrary: ms rest rule: scan.induct)
  case (1 fl r adv p x)
  show ?case
  proof (cases "search fl r adv p x")
    case None
    with "1.prems" show ?thesis by (subst (asm) scan.simps) simp
  next
    case (Some found_match)
    obtain skip mt g cu' where f: "found_match = (skip, mt, g, cu')"
      by (cases found_match) auto
    from search_Some_parts[OF Some[unfolded f]]
    have x: "x = skip @ mt @ snd cu'" and a: "adv \<and> skip = [] \<longrightarrow> mt \<noteq> []"
      by simp_all
    have t: "length (snd cu') < length x \<or> (length (snd cu') = length x \<and> mt = [] \<and> \<not> adv)"
      using arg_cong[OF x, of length] a by auto
    obtain ms' rest' where s': "scan fl r (mt = []) (fst cu') (snd cu') = (ms', rest')"
      by (cases "scan fl r (mt = []) (fst cu') (snd cu')") auto
    from "1.prems" Some f t s' have e: "ms = (skip, mt, g) # ms'" "rest = rest'"
      by (subst (asm) scan.simps, simp)+
    have "concat (map (\<lambda>mt. fst mt @ fst (snd mt)) ms') @ rest' = snd cu'"
      using "1.IH"[OF Some[unfolded f] refl refl refl t s'] by simp
    with e x show ?thesis by simp
  qed
qed

text \<open>Group 1 is set in every match of the patterns that have it.\<close>

lemma rx_match_keeps_group:
  "res \<in> set (rx_match fl r cu g) \<Longrightarrow> g \<noteq> None \<Longrightarrow> snd res \<noteq> None"
proof (induction fl r cu g arbitrary: res rule: rx_match.induct)
  case (1 fl cu g)
  then show ?case by auto
next
  case (2 fl ds cu g)
  then show ?case by (auto split: option.splits)
next
  case (3 fl cu g)
  then show ?case by (cases "snd cu") (auto split: if_splits)
next
  case (4 fl its cu g)
  then show ?case by (cases "snd cu") (auto split: if_splits)
next
  case (5 fl its cu g)
  then show ?case by (cases "snd cu") (auto split: if_splits)
next
  case (6 fl a b cu g)
  from "6.prems"(1) obtain r1 where r1: "r1 \<in> set (rx_match fl a cu g)"
    and r2: "res \<in> set (rx_match fl b (fst r1) (snd r1))"
    by auto
  from "6.IH"(1)[OF r1 "6.prems"(2)] have "snd r1 \<noteq> None" .
  with "6.IH"(2)[OF r1 r2] show ?case .
next
  case (7 fl a b cu g)
  from "7.prems"(1) have "res \<in> set (rx_match fl a cu g) \<or> res \<in> set (rx_match fl b cu g)"
    by simp
  then show ?case using "7.IH" "7.prems"(2) by blast
next
  case (8 fl a cu g)
  from "8.prems"(1) have "res = (cu, g) \<or>
      (\<exists>r1 \<in> set (rx_match fl a cu g). length (snd (fst r1)) < length (snd cu) \<and>
          res \<in> set (rx_match fl (Star a) (fst r1) (snd r1)))"
    by (subst (asm) rx_match.simps(8)) (auto split: if_splits)
  then show ?case
  proof
    assume "res = (cu, g)"
    with "8.prems"(2) show ?thesis by simp
  next
    assume "\<exists>r1 \<in> set (rx_match fl a cu g). length (snd (fst r1)) < length (snd cu) \<and>
          res \<in> set (rx_match fl (Star a) (fst r1) (snd r1))"
    then obtain r1 where r1: "r1 \<in> set (rx_match fl a cu g)"
      and lt: "length (snd (fst r1)) < length (snd cu)"
      and r2: "res \<in> set (rx_match fl (Star a) (fst r1) (snd r1))"
      by blast
    from "8.IH"(1)[OF r1 "8.prems"(2)] have "snd r1 \<noteq> None" .
    with "8.IH"(2)[OF r1 lt r2] show ?thesis .
  qed
next
  case (9 fl a cu g)
  from "9.prems"(1) have "res = (cu, g) \<or>
      (\<exists>r1 \<in> set (rx_match fl a cu g). length (snd (fst r1)) < length (snd cu) \<and>
          res \<in> set (rx_match fl (LazyStar a) (fst r1) (snd r1)))"
    by (subst (asm) rx_match.simps(9)) (auto split: if_splits)
  then show ?case
  proof
    assume "res = (cu, g)"
    with "9.prems"(2) show ?thesis by simp
  next
    assume "\<exists>r1 \<in> set (rx_match fl a cu g). length (snd (fst r1)) < length (snd cu) \<and>
          res \<in> set (rx_match fl (LazyStar a) (fst r1) (snd r1))"
    then obtain r1 where r1: "r1 \<in> set (rx_match fl a cu g)"
      and lt: "length (snd (fst r1)) < length (snd cu)"
      and r2: "res \<in> set (rx_match fl (LazyStar a) (fst r1) (snd r1))"
      by blast
    from "9.IH"(1)[OF r1 "9.prems"(2)] have "snd r1 \<noteq> None" .
    with "9.IH"(2)[OF r1 lt r2] show ?thesis .
  qed
next
  case (10 fl a cu g)
  then show ?case by auto
next
  case (11 fl a cu g)
  show ?case
  proof (cases "rx_match fl a cu g")
    case Nil
    with "11.prems"(1) show ?thesis by simp
  next
    case (Cons r1 rs)
    with "11.prems"(1) have e: "res = (cu, snd r1)" by simp
    from Cons have "r1 \<in> set (rx_match fl a cu g)" by simp
    from "11.IH"[OF this "11.prems"(2)] e show ?thesis by simp
  qed
next
  case (12 fl cu g)
  then show ?case by (auto split: if_splits)
next
  case (13 fl cu g)
  then show ?case by (auto split: if_splits)
next
  case (14 fl cu g)
  then show ?case by (auto split: if_splits)
qed

lemma rx_match_sets_group:
  "sets_group r \<Longrightarrow> res \<in> set (rx_match fl r cu g) \<Longrightarrow> snd res \<noteq> None"
proof (induction r arbitrary: cu g res)
  case (Seq a b)
  from Seq.prems(2) obtain r1 where r1: "r1 \<in> set (rx_match fl a cu g)"
    and r2: "res \<in> set (rx_match fl b (fst r1) (snd r1))"
    by auto
  from Seq.prems(1) have "sets_group a \<or> sets_group b" by simp
  then show ?case
  proof
    assume "sets_group a"
    from Seq.IH(1)[OF this r1] have "snd r1 \<noteq> None" .
    with r2 show ?thesis by (rule rx_match_keeps_group)
  next
    assume "sets_group b"
    from Seq.IH(2)[OF this r2] show ?thesis .
  qed
next
  case (Alt a b)
  from Alt.prems(2) have "res \<in> set (rx_match fl a cu g) \<or> res \<in> set (rx_match fl b cu g)"
    by simp
  moreover from Alt.prems(1) have "sets_group a" and "sets_group b" by simp_all
  ultimately show ?case using Alt.IH by blast
next
  case (Group a)
  then show ?case by auto
qed simp_all

lemma first_match_sets_group:
  assumes "sets_group r" and "first_match fl r adv cu = Some res"
  shows "snd res \<noteq> None"
proof -
  let ?ok = "\<lambda>res. \<not> adv \<or> length (snd (fst res)) < length (snd cu)"
  from assms(2) obtain rest where "filter ?ok (rx_match fl r cu None) = res # rest"
    by (auto simp add: first_match_def split: list.splits)
  then have "res \<in> set (filter ?ok (rx_match fl r cu None))" by simp
  then have "res \<in> set (rx_match fl r cu None)" by simp
  with assms(1) show ?thesis by (rule rx_match_sets_group)
qed

lemma search_sets_group:
  "sets_group r \<Longrightarrow> search fl r adv p s = Some (skip, mt, g, cu') \<Longrightarrow> g \<noteq> None"
proof (induction s arbitrary: p adv skip)
  case Nil
  then show ?case
    by (auto split: option.splits dest: first_match_sets_group)
next
  case (Cons c s)
  show ?case
  proof (cases "first_match fl r adv (p, c # s)")
    case (Some res)
    with Cons.prems(2) have "g = snd res" by auto
    with first_match_sets_group[OF Cons.prems(1) Some] show ?thesis by simp
  next
    case None
    with Cons.prems(2) obtain skip' where
      "search fl r False (Some c) s = Some (skip', mt, g, cu')"
      by (auto split: option.splits)
    from Cons.IH[OF Cons.prems(1) this] show ?thesis .
  qed
qed

lemma program_patterns_set_group:
  "sets_group name_re \<and> sets_group description_re \<and> sets_group options_re \<and>
   sets_group synopsis_re \<and> sets_group option_pattern \<and> sets_group positional_pattern \<and>
   list_all sets_group value_patterns"
  by (simp add: name_re_def description_re_def options_re_def synopsis_re_def
      option_pattern_def positional_pattern_def value_patterns_def)



lemma atom_dot: "atom_of [DOTALL] Dot (\<lambda>c. True)"
  by (simp add: atom_of_def)
































section \<open>The program on the sample inputs\<close>

lemma man_to_json_foo: "man_to_json (Some foo_page) ''foo'' = Returns (Some foo_tool)"
  by code_simp

lemma man_to_json_bar: "man_to_json (Some bar_page) ''bar'' = Returns (Some bar_tool)"
  by code_simp

lemma parse_options_verbose:
  "parse_options verbose_section =
   [\<lparr> p_name = ''-v'', p_param_type = ''flag'', p_position = None, p_value_type = None,
      p_description = Some '', enable verbose output'' \<rparr>]"
  by code_simp

lemma parse_positional_args_grep:
  "parse_positional_args grep_page ''grep'' =
   Returns
    [\<lparr> p_name = ''OPTIONS'', p_param_type = ''positional'', p_position = Some 1,
       p_value_type = Some ''options'', p_description = None \<rparr>,
     \<lparr> p_name = ''PATTERN'', p_param_type = ''positional'', p_position = Some 2,
       p_value_type = Some ''pattern'', p_description = None \<rparr>,
     \<lparr> p_name = ''FILE'', p_param_type = ''positional'', p_position = Some 3,
       p_value_type = Some ''file-path'', p_description = None \<rparr>]"
  by code_simp


lemma verbose_entry_parts:
  "entry_description verbose_entry = '', enable verbose output'' \<and>
   parse_entry verbose_entry =
     Some \<lparr> p_name = ''-v'', p_param_type = ''flag'', p_position = None, p_value_type = None,
            p_description = Some '', enable verbose output'' \<rparr>"
  by code_simp


section \<open>Facts about the program\<close>

lemma parse_entries_from_entry:
  "p \<in> set (parse_entries entries) \<Longrightarrow> \<exists>entry \<in> set entries. parse_entry entry = Some p"
  by (induction entries) (auto split: option.splits)

lemma parse_options_from_entry:
  "p \<in> set (parse_options man_content) \<Longrightarrow> \<exists>entry. parse_entry entry = Some p"
  by (auto simp add: parse_options_def split: option.splits dest: parse_entries_from_entry)

lemma parse_entry_flag_no_value_type:
  "parse_entry entry = Some p \<Longrightarrow> p_param_type p = ''flag'' \<Longrightarrow> p_value_type p = None"
  by (auto simp add: parse_entry_def Let_def split: if_splits list.splits)

lemma positional_records_fields:
  "p \<in> set (positional_records idx pos_args) \<Longrightarrow>
   \<exists>pos_arg \<in> set pos_args.
     p_name p = strip pos_arg \<and> p_value_type p = Some (positional_value_type pos_arg)"
  by (induction pos_args arbitrary: idx) (auto split: if_splits)

lemma merge_tool_not_array:
  "map_of entries ''tools'' = Some v \<Longrightarrow> \<forall>ts. v \<noteq> JArray ts \<Longrightarrow>
   merge_tool (JObject entries) new_tool = Inl ToolsNotArray"
  by (cases v) (simp_all add: merge_tool_def)

lemma merge_tool_array:
  "map_of entries ''tools'' = Some (JArray tools) \<Longrightarrow>
   merge_tool (JObject entries) new_tool =
     Inr (JObject (AList.update ''tools'' (JArray (tools @ [new_tool])) entries))"
  by (simp add: merge_tool_def)

lemma merge_tool_no_key:
  "map_of entries ''tools'' = None \<Longrightarrow>
   merge_tool (JObject entries) new_tool = Inr (JObject [(''tools'', JArray [new_tool])])"
  by (simp add: merge_tool_def)

text \<open>
  A text in which the options pattern finds nothing gives the empty list of options, and
  a text in which the synopsis pattern finds nothing gives the empty list of positional
  arguments, for every command name. For a text that is not empty and has no synopsis
  section, \<open>man_to_json\<close> returns a tool record, for every command name. A text without
  the letters \<open>options\<close> in any case has no options section; a text without \<open>SYNOPSIS\<close>
  has no synopsis section.
\<close>

lemma missing_section_gives_empty_list:
  "(\<not> found options_flags options_re man_content \<longrightarrow> parse_options man_content = []) \<and>
   (\<not> found [DOTALL] synopsis_re man_content \<longrightarrow>
      parse_positional_args man_content command = Returns []) \<and>
   (man_content \<noteq> [] \<and> \<not> found [DOTALL] synopsis_re man_content \<longrightarrow>
      man_to_json (Some man_content) command =
        Returns (Some \<lparr> t_name = command, t_description = extract_description man_content,
                        t_parameters = parse_options man_content \<rparr>)) \<and>
   (man_content \<noteq> [] \<and> \<not> found [DOTALL] synopsis_re man_content \<and>
    \<not> found options_flags options_re man_content \<longrightarrow>
      man_to_json (Some man_content) command =
        Returns (Some \<lparr> t_name = command, t_description = extract_description man_content,
                        t_parameters = [] \<rparr>)) \<and>
   (\<not> contains (lower man_content) ''options'' \<longrightarrow>
      \<not> found options_flags options_re man_content) \<and>
   (\<not> contains man_content ''SYNOPSIS'' \<longrightarrow> \<not> found [DOTALL] synopsis_re man_content)"
proof -
  have o: "parse_options man_content = []" if "\<not> found options_flags options_re man_content"
    by (simp only: parse_options_def not_found[OF that] option.case)
  have p: "parse_positional_args man_content command = Returns []"
    if "\<not> found [DOTALL] synopsis_re man_content"
    by (simp only: parse_positional_args_def not_found[OF that] option.case)
  have 3: "man_to_json (Some man_content) command =
      Returns (Some \<lparr> t_name = command, t_description = extract_description man_content,
                      t_parameters = ps @ parse_options man_content \<rparr>)"
    if "man_content \<noteq> []" and "parse_positional_args man_content command = Returns ps" for ps
    using that by (simp add: man_to_json_def)
  have c1: "\<not> contains (lower man_content) ''options'' \<longrightarrow>
      \<not> found options_flags options_re man_content"
    using options_found_text by blast
  have c2: "\<not> contains man_content ''SYNOPSIS'' \<longrightarrow> \<not> found [DOTALL] synopsis_re man_content"
    using synopsis_found_text by blast
  show ?thesis
    using o p 3[of "[]"] c1 c2 by simp
qed

lemma unterminated_set_raises:
  assumes "found [DOTALL] synopsis_re man_content" and "unterminated_set command"
  shows "parse_positional_args man_content command = ReError"
proof -
  let ?rest = "dropWhile (\<lambda>c. c \<notin> set pattern_syntax) command"
  from assms(2) obtain rest where "?rest = CHR ''['' # rest"
    by (cases ?rest) (simp_all add: unterminated_set_def)
  then have "CHR ''['' \<in> set ?rest" by simp
  then have "CHR ''['' \<in> set command" by (rule set_dropWhileD)
  moreover have "CHR ''['' \<in> set pattern_syntax" by (simp add: pattern_syntax_def)
  ultimately have "list_ex (\<lambda>c. c \<in> set pattern_syntax) command"
    unfolding list_ex_iff by blast
  with assms(2) have "command_pattern command = ReError"
    by (simp add: command_pattern_def)
  moreover from assms(1) obtain m where "re_search [DOTALL] synopsis_re man_content = Some m"
    by (auto simp add: found_def)
  ultimately show ?thesis
    by (simp add: parse_positional_args_def)
qed

lemma until_description_end_parts:
  "until_description_end y = Some (d, tail) \<Longrightarrow> y = d @ tail \<and> at_description_end tail"
proof (induction y arbitrary: d)
  case Nil
  then show ?case by simp
next
  case (Cons c y)
  show ?case
  proof (cases "at_description_end (c # y)")
    case True
    with Cons.prems show ?thesis by simp
  next
    case False
    with Cons.prems obtain d' where "until_description_end y = Some (d', tail)" and "d = c # d'"
      by (auto split: option.splits)
    with Cons.IH show ?thesis by simp
  qed
qed

lemma until_description_end_first:
  "until_description_end y = Some (d, tail) \<Longrightarrow> d = d1 @ d2 \<Longrightarrow> d2 \<noteq> [] \<Longrightarrow>
   \<not> at_description_end (d2 @ tail)"
proof (induction y arbitrary: d d1)
  case Nil
  then show ?case by simp
next
  case (Cons c y)
  show ?case
  proof (cases "at_description_end (c # y)")
    case True
    with Cons.prems show ?thesis by simp
  next
    case False
    with Cons.prems(1) obtain d' where u: "until_description_end y = Some (d', tail)"
      and d: "d = c # d'"
      by (auto split: option.splits)
    show ?thesis
    proof (cases d1)
      case Nil
      with Cons.prems(2) d have "d2 = c # d'" by simp
      moreover from until_description_end_parts[OF u] have "y = d' @ tail" by simp
      ultimately show ?thesis using False by simp
    next
      case (Cons e d1')
      with Cons.prems(2) d have "d' = d1' @ d2" by simp
      from Cons.IH[OF u this Cons.prems(3)] show ?thesis .
    qed
  qed
qed


section \<open>The claims\<close>

text \<open>
  Claim C1, as the code has it. For the text \<open>SYNOPSIS\<close>, \<open>grep [OPTIONS] PATTERN [FILE]...\<close>
  and the command \<open>grep\<close> the positional parser returns three records, not two: the token
  \<open>OPTIONS\<close> of \<open>[OPTIONS]\<close> is an all-capitals word like the others. The positions are
  1, 2 and 3 in the order of appearance, and the record of \<open>FILE\<close>, the third, has the
  value type \<open>file-path\<close>.
\<close>

theorem grep_synopsis_positional_records:
  "parse_positional_args grep_page ''grep'' =
   Returns
    [\<lparr> p_name = ''OPTIONS'', p_param_type = ''positional'', p_position = Some 1,
       p_value_type = Some ''options'', p_description = None \<rparr>,
     \<lparr> p_name = ''PATTERN'', p_param_type = ''positional'', p_position = Some 2,
       p_value_type = Some ''pattern'', p_description = None \<rparr>,
     \<lparr> p_name = ''FILE'', p_param_type = ''positional'', p_position = Some 3,
       p_value_type = Some ''file-path'', p_description = None \<rparr>]"
  by (rule parse_positional_args_grep)

text \<open>
  Claim C1, as stated, fails on that input: the result does not have two records, and its
  second record has the value type \<open>pattern\<close>, not \<open>file-path\<close>.
\<close>

theorem grep_synopsis_not_two_records:
  "(case parse_positional_args grep_page ''grep'' of
      Returns ps \<Rightarrow> length ps \<noteq> 2 \<and> p_value_type (ps ! 1) \<noteq> Some ''file-path''
    | ReError \<Rightarrow> False
    | NotModelled \<Rightarrow> False) \<and>
   \<not> (\<exists>a b. parse_positional_args grep_page ''grep'' = Returns [a, b] \<and>
           p_position a = Some 1 \<and> p_position b = Some 2 \<and>
           p_value_type b = Some ''file-path'')"
  by (simp add: parse_positional_args_grep)

text \<open>
  Claim C2, evaluated on the code. The existing file holds the mapping with the one entry
  \<open>version\<close> and no \<open>tools\<close> key. The run writes a mapping with the one entry
  \<open>tools\<close>: the entry \<open>version\<close> is gone.
\<close>

theorem missing_tools_key_drops_entries:
  "main (sample_env ''foo'' foo_page (Document (JObject [(''version'', JInt 1)]))) =
   Returns (sample_run (JObject [(''tools'', JArray [tool_json foo_tool])])
                       (Appended ''foo'' ''tools.json''))"
  by (simp add: main_def man_to_json_foo handle_output_def merge_tool_def wrote_def)

text \<open>
  Claim C3. When the existing output file parses to a mapping whose \<open>tools\<close> entry is not
  a sequence, a run with \<open>-o\<close> on that file ends with exit code 1, writes nothing and
  leaves the file as it was.
\<close>

theorem tools_not_a_sequence_fails:
  assumes "arg_output_file e = Some path" and "path \<noteq> []"
    and "env_file e = Document (JObject entries)"
    and "map_of entries ''tools'' = Some v" and "\<forall>ts. v \<noteq> JArray ts"
    and "main e = Returns r"
  shows "exit_code r = 1 \<and> file_after r = env_file e \<and> written r = None \<and> stdout r = None"
proof (cases "man_to_json (env_man_page e) (arg_command e)")
  case NotModelled
  with assms(6) show ?thesis by (simp add: main_def)
next
  case ReError
  with assms(6) show ?thesis by (simp add: main_def)
next
  case (Returns res)
  show ?thesis
  proof (cases res)
    case None
    with Returns assms(6) have "r = failed e []" by (simp add: main_def)
    then show ?thesis by (simp add: failed_def)
  next
    case (Some t)
    with Returns assms(6) have "r = handle_output e t" by (simp add: main_def)
    moreover have "merge_tool (JObject entries) (tool_json t) = Inl ToolsNotArray"
      using assms(4,5) by (rule merge_tool_not_array)
    ultimately show ?thesis
      using assms(1,2,3) by (simp add: handle_output_def failed_def)
  qed
qed

theorem tools_not_a_sequence_fails_witness:
  "main \<lparr> arg_command = ''foo'', arg_output_file = Some ''tools.json'', arg_pretty = False,
          env_man_page = Some foo_page,
          env_file = Document (JObject [(''tools'', JString ''not-a-list'')]),
          env_can_write = True \<rparr> =
   Returns \<lparr> exit_code = 1,
             file_after = Document (JObject [(''tools'', JString ''not-a-list'')]),
             written = None, stdout = None, stderr = [NotAnArrayMessage] \<rparr> \<and>
   exit_code \<lparr> exit_code = 1,
               file_after = Document (JObject [(''tools'', JString ''not-a-list'')]),
               written = None, stdout = None, stderr = [NotAnArrayMessage] \<rparr> = 1"
  (is "main ?e = Returns ?r \<and> _")
proof -
  have m: "main ?e = Returns ?r"
    by (simp add: main_def man_to_json_foo handle_output_def merge_tool_def failed_def)
  have "exit_code ?r = 1 \<and> file_after ?r = env_file ?e \<and> written ?r = None \<and> stdout ?r = None"
  proof (rule tools_not_a_sequence_fails)
    show "arg_output_file ?e = Some ''tools.json''" by simp
    show "''tools.json'' \<noteq> []" by simp
    show "env_file ?e = Document (JObject [(''tools'', JString ''not-a-list'')])" by simp
    show "map_of [(''tools'', JString ''not-a-list'')] ''tools'' = Some (JString ''not-a-list'')"
      by simp
    show "\<forall>ts. JString ''not-a-list'' \<noteq> JArray ts" by simp
    show "main ?e = Returns ?r" by (rule m)
  qed
  with m show ?thesis by simp
qed

text \<open>
  Claim C4. When the description of an option entry contains one of the words \<open>toggle\<close>,
  \<open>enable\<close>, \<open>disable\<close>, \<open>flag\<close> (the word between two word boundaries: no word
  character before it and none after it), the entry is classified \<open>flag\<close>, whatever the
  option name and the first line are, so before every other rule. This holds for the
  classifier and for the record the option parser builds from the entry; the section with
  the entry \<open>-v, --verbose    enable verbose output\<close> gives one record, of type \<open>flag\<close>.
\<close>

theorem flag_word_classifies_as_flag:
  assumes "w \<in> set [''toggle'', ''enable'', ''disable'', ''flag'']"
    and "pre = [] \<or> \<not> is_word (last pre)"
    and "post = [] \<or> \<not> is_word (hd post)"
  shows "classify_parameter_type param_name (pre @ w @ post) first_line = ''flag'' \<and>
         (parse_entry entry = Some p \<and> entry_description entry = pre @ w @ post \<longrightarrow>
            p_param_type p = ''flag'') \<and>
         parse_options verbose_section =
           [\<lparr> p_name = ''-v'', p_param_type = ''flag'', p_position = None, p_value_type = None,
              p_description = Some '', enable verbose output'' \<rparr>]"
proof -
  have c: "classify_parameter_type n (pre @ w @ post) l = ''flag''" for n l
    using assms by (rule classify_flag_word)
  have "p_param_type p = ''flag''"
    if "parse_entry entry = Some p" and "entry_description entry = pre @ w @ post"
    using parse_entry_param_type[OF that(1)] that(2) c by simp
  with c parse_options_verbose show ?thesis by blast
qed

theorem flag_word_classifies_as_flag_witness:
  "''enable'' \<in> set [''toggle'', ''enable'', ''disable'', ''flag''] \<and>
   \<not> is_word (last '', '') \<and> \<not> is_word (hd '' verbose output'') \<and>
   entry_description verbose_entry = '', '' @ ''enable'' @ '' verbose output'' \<and>
   parse_entry verbose_entry =
     Some \<lparr> p_name = ''-v'', p_param_type = ''flag'', p_position = None, p_value_type = None,
            p_description = Some '', enable verbose output'' \<rparr> \<and>
   classify_parameter_type ''-v'' ('', '' @ ''enable'' @ '' verbose output'') verbose_entry =
     ''flag''"
proof -
  have w: "''enable'' \<in> set [''toggle'', ''enable'', ''disable'', ''flag'']" by simp
  have b: "\<not> is_word (last '', '')" and a: "\<not> is_word (hd '' verbose output'')"
    by (simp_all add: is_word_def)
  have "classify_parameter_type ''-v'' ('', '' @ ''enable'' @ '' verbose output'') verbose_entry =
     ''flag''"
    using flag_word_classifies_as_flag[of "''enable''" "'', ''" "'' verbose output''"] w a b
    by blast
  with w a b verbose_entry_parts show ?thesis by simp
qed






text \<open>
  Claim C7. The page of the command \<open>[\<close> below has a SYNOPSIS section and no OPTIONS
  section, so it is a text of the claim: the options pattern finds nothing and the option
  parser returns the empty list. The conversion does not succeed on it: the positional
  parser puts the name \<open>[\<close> into a pattern without escaping it, \<open>re\<close> raises \<open>re.error\<close>
  for the character set that has no end, nothing catches the error, and neither
  \<open>man_to_json\<close> nor \<open>main\<close> returns.
\<close>

theorem unescaped_command_name_raises:
  "bracket_page \<noteq> [] \<and>
   \<not> found options_flags options_re bracket_page \<and>
   parse_options bracket_page = [] \<and>
   found [DOTALL] synopsis_re bracket_page \<and>
   command_pattern ''['' = ReError \<and>
   parse_positional_args bracket_page ''['' = ReError \<and>
   man_to_json (Some bracket_page) ''['' = ReError \<and>
   main (sample_env ''['' bracket_page Missing) = ReError"
proof -
  have 1: "\<not> found options_flags options_re bracket_page" by code_simp
  have 2: "parse_options bracket_page = []" by code_simp
  have 3: "found [DOTALL] synopsis_re bracket_page" by code_simp
  have 4: "command_pattern ''['' = ReError" by code_simp
  have 5: "parse_positional_args bracket_page ''['' = ReError" by code_simp
  have 6: "man_to_json (Some bracket_page) ''['' = ReError" by code_simp
  have 7: "main (sample_env ''['' bracket_page Missing) = ReError"
    using 6 by (simp add: main_def)
  from 1 2 3 4 5 6 7 show ?thesis by simp
qed

text \<open>
  Claim C8. When the existing document has the \<open>tools\<close> sequence \<open>tools\<close>, a run that
  appends tool \<open>b\<close> leaves the sequence \<open>tools @ [b]\<close>, and a second run on the written
  document that appends tool \<open>c\<close> leaves \<open>tools @ [b, c]\<close>: each run adds one record at
  the end and keeps the records before it in their order. With \<open>tools = [A]\<close> these are
  \<open>[A, B]\<close> and \<open>[A, B, C]\<close>.
\<close>

theorem append_keeps_order:
  assumes "arg_output_file e = Some path" and "path \<noteq> []" and "env_can_write e"
    and "env_file e = Document (JObject entries)"
    and "map_of entries ''tools'' = Some (JArray tools)"
    and "man_to_json (env_man_page e) (arg_command e) = Returns (Some b)"
    and "main e = Returns r"
    and "arg_output_file e' = Some path'" and "path' \<noteq> []" and "env_can_write e'"
    and "env_file e' = file_after r"
    and "man_to_json (env_man_page e') (arg_command e') = Returns (Some c)"
    and "main e' = Returns r'"
  shows "exit_code r = 0 \<and>
         file_after r =
           Document (JObject (AList.update ''tools'' (JArray (tools @ [tool_json b])) entries)) \<and>
         exit_code r' = 0 \<and>
         file_after r' =
           Document (JObject (AList.update ''tools''
                                 (JArray (tools @ [tool_json b, tool_json c])) entries))"
proof -
  have r: "r = handle_output e b"
    using assms(6,7) by (simp add: main_def)
  have m: "merge_tool (JObject entries) (tool_json b) =
     Inr (JObject (AList.update ''tools'' (JArray (tools @ [tool_json b])) entries))"
    using assms(5) by (rule merge_tool_array)
  have 1: "exit_code r = 0 \<and> file_after r =
     Document (JObject (AList.update ''tools'' (JArray (tools @ [tool_json b])) entries))"
    using r m assms(1,2,3,4) by (simp add: handle_output_def wrote_def)
  have r': "r' = handle_output e' c"
    using assms(12,13) by (simp add: main_def)
  have "map_of (AList.update ''tools'' (JArray (tools @ [tool_json b])) entries) ''tools'' =
     Some (JArray (tools @ [tool_json b]))"
    by (simp add: update_conv')
  then have m': "merge_tool (JObject (AList.update ''tools'' (JArray (tools @ [tool_json b])) entries))
       (tool_json c) =
     Inr (JObject (AList.update ''tools'' (JArray ((tools @ [tool_json b]) @ [tool_json c]))
            (AList.update ''tools'' (JArray (tools @ [tool_json b])) entries)))"
    by (rule merge_tool_array)
  have 2: "exit_code r' = 0 \<and> file_after r' =
     Document (JObject (AList.update ''tools'' (JArray (tools @ [tool_json b, tool_json c])) entries))"
    using r' m' 1 assms(8,9,10,11) by (simp add: handle_output_def wrote_def)
  from 1 2 show ?thesis by simp
qed

theorem append_keeps_order_witness:
  "main (sample_env ''foo'' foo_page
           (Document (JObject [(''tools'', JArray [JObject [(''name'', JString ''a'')]])]))) =
   Returns (sample_run
     (JObject [(''tools'', JArray [JObject [(''name'', JString ''a'')], tool_json foo_tool])])
     (Appended ''foo'' ''tools.json'')) \<and>
   main (sample_env ''bar'' bar_page
           (Document (JObject [(''tools'',
              JArray [JObject [(''name'', JString ''a'')], tool_json foo_tool])]))) =
   Returns (sample_run
     (JObject [(''tools'',
        JArray [JObject [(''name'', JString ''a'')], tool_json foo_tool, tool_json bar_tool])])
     (Appended ''bar'' ''tools.json'')) \<and>
   file_after (sample_run
     (JObject [(''tools'',
        JArray [JObject [(''name'', JString ''a'')], tool_json foo_tool, tool_json bar_tool])])
     (Appended ''bar'' ''tools.json'')) =
   Document (JObject [(''tools'',
     JArray [JObject [(''name'', JString ''a'')], tool_json foo_tool, tool_json bar_tool])])"
  (is "main ?e1 = Returns ?r1 \<and> main ?e2 = Returns ?r2 \<and> _")
proof -
  have m1: "main ?e1 = Returns ?r1"
    by (simp add: main_def man_to_json_foo handle_output_def merge_tool_def wrote_def)
  have m2: "main ?e2 = Returns ?r2"
    by (simp add: main_def man_to_json_bar handle_output_def merge_tool_def wrote_def)
  have "exit_code ?r1 = 0 \<and>
        file_after ?r1 =
          Document (JObject (AList.update ''tools''
            (JArray ([JObject [(''name'', JString ''a'')]] @ [tool_json foo_tool]))
            [(''tools'', JArray [JObject [(''name'', JString ''a'')]])])) \<and>
        exit_code ?r2 = 0 \<and>
        file_after ?r2 =
          Document (JObject (AList.update ''tools''
            (JArray ([JObject [(''name'', JString ''a'')]] @ [tool_json foo_tool, tool_json bar_tool]))
            [(''tools'', JArray [JObject [(''name'', JString ''a'')]])]))"
  proof (rule append_keeps_order)
    show "arg_output_file ?e1 = Some ''tools.json''" by simp
    show "''tools.json'' \<noteq> []" by simp
    show "env_can_write ?e1" by simp
    show "env_file ?e1 = Document (JObject [(''tools'', JArray [JObject [(''name'', JString ''a'')]])])"
      by simp
    show "map_of [(''tools'', JArray [JObject [(''name'', JString ''a'')]])] ''tools'' =
          Some (JArray [JObject [(''name'', JString ''a'')]])" by simp
    show "man_to_json (env_man_page ?e1) (arg_command ?e1) = Returns (Some foo_tool)"
      by (simp add: man_to_json_foo)
    show "main ?e1 = Returns ?r1" by (rule m1)
    show "arg_output_file ?e2 = Some ''tools.json''" by simp
    show "''tools.json'' \<noteq> []" by simp
    show "env_can_write ?e2" by simp
    show "env_file ?e2 = file_after ?r1" by simp
    show "man_to_json (env_man_page ?e2) (arg_command ?e2) = Returns (Some bar_tool)"
      by (simp add: man_to_json_bar)
    show "main ?e2 = Returns ?r2" by (rule m2)
  qed
  with m1 m2 show ?thesis by simp
qed

text \<open>
  Claim C9. Every record the option parser emits with \<open>param-type\<close> \<open>flag\<close> has no
  \<open>value-type\<close> field: for such a record the value type is not inferred.
\<close>

theorem flag_records_have_no_value_type:
  "\<forall>p \<in> set (parse_options man_content).
     p_param_type p = ''flag'' \<longrightarrow> p_value_type p = None"
  using parse_options_from_entry parse_entry_flag_no_value_type by blast

theorem flag_records_have_no_value_type_witness:
  "parse_options verbose_section \<noteq> [] \<and>
   p_param_type (hd (parse_options verbose_section)) = ''flag'' \<and>
   p_value_type (hd (parse_options verbose_section)) = None"
proof -
  let ?ps = "parse_options verbose_section"
  have ne: "?ps \<noteq> []" and ty: "p_param_type (hd ?ps) = ''flag''"
    by (simp_all add: parse_options_verbose)
  from ne have "hd ?ps \<in> set ?ps" by simp
  with ty have "p_value_type (hd ?ps) = None"
    using flag_records_have_no_value_type by blast
  with ne ty show ?thesis by simp
qed

text \<open>
  Claim C10. Every record the positional parser emits has a \<open>value-type\<close> field, whatever
  pattern the command name compiles to; when none of the hints \<open>file\<close>, \<open>path\<close>,
  \<open>dir\<close>, \<open>pid\<close> occurs in the lower-cased token, the field is the lower-cased token
  without its trailing dots.
\<close>

theorem positional_records_have_value_type:
  "(\<forall>p \<in> set (positional_of_synopsis command_re synopsis).
      p_value_type p \<noteq> None \<and>
      (\<exists>pos_arg. p_name p = strip pos_arg \<and>
                 p_value_type p = Some (positional_value_type pos_arg))) \<and>
   (\<forall>ps. parse_positional_args man_content command = Returns ps \<longrightarrow>
      (\<forall>p \<in> set ps. p_value_type p \<noteq> None)) \<and>
   (\<not> contains (lower pos_arg) ''file'' \<and> \<not> contains (lower pos_arg) ''path'' \<and>
    \<not> contains (lower pos_arg) ''dir'' \<and> \<not> contains (lower pos_arg) ''pid'' \<longrightarrow>
    positional_value_type pos_arg = rstrip_chars ''.'' (lower pos_arg))"
proof (intro conjI)
  show 1: "\<forall>p \<in> set (positional_of_synopsis command_re synopsis).
      p_value_type p \<noteq> None \<and>
      (\<exists>pos_arg. p_name p = strip pos_arg \<and>
                 p_value_type p = Some (positional_value_type pos_arg))" for command_re synopsis
    unfolding positional_of_synopsis_def
    by (auto dest!: positional_records_fields)
  show "\<forall>ps. parse_positional_args man_content command = Returns ps \<longrightarrow>
      (\<forall>p \<in> set ps. p_value_type p \<noteq> None)"
    using 1 by (auto simp add: parse_positional_args_def split: option.splits outcome.splits)
  show "\<not> contains (lower pos_arg) ''file'' \<and> \<not> contains (lower pos_arg) ''path'' \<and>
    \<not> contains (lower pos_arg) ''dir'' \<and> \<not> contains (lower pos_arg) ''pid'' \<longrightarrow>
    positional_value_type pos_arg = rstrip_chars ''.'' (lower pos_arg)"
    by (simp add: positional_value_type_def Let_def)
qed

theorem positional_records_have_value_type_witness:
  "\<not> contains (lower ''PATTERN'') ''file'' \<and> \<not> contains (lower ''PATTERN'') ''path'' \<and>
   \<not> contains (lower ''PATTERN'') ''dir'' \<and> \<not> contains (lower ''PATTERN'') ''pid'' \<and>
   positional_value_type ''PATTERN'' = rstrip_chars ''.'' (lower ''PATTERN'') \<and>
   p_value_type \<lparr> p_name = ''PATTERN'', p_param_type = ''positional'', p_position = Some 2,
                  p_value_type = Some ''pattern'', p_description = None \<rparr> \<noteq> None"
proof -
  have h: "\<not> contains (lower ''PATTERN'') ''file'' \<and> \<not> contains (lower ''PATTERN'') ''path'' \<and>
     \<not> contains (lower ''PATTERN'') ''dir'' \<and> \<not> contains (lower ''PATTERN'') ''pid''"
    by code_simp
  note t = positional_records_have_value_type
             [of "Seqs [WordB, Lit ''grep'', WordB]" "''grep [OPTIONS] PATTERN [FILE]...''"
                 grep_page "''grep''" "''PATTERN''"]
  from t h have d: "positional_value_type ''PATTERN'' = rstrip_chars ''.'' (lower ''PATTERN'')"
    by blast
  from t have "\<forall>ps. parse_positional_args grep_page ''grep'' = Returns ps \<longrightarrow>
      (\<forall>p \<in> set ps. p_value_type p \<noteq> None)"
    by blast
  then have "p_value_type \<lparr> p_name = ''PATTERN'', p_param_type = ''positional'',
       p_position = Some 2, p_value_type = Some ''pattern'', p_description = None \<rparr> \<noteq> None"
    using parse_positional_args_grep by simp
  with h d show ?thesis by blast
qed

end
